theory Spec2Isabelle
  imports Complex_Main
begin

section \<open>The bakery supply chain simulator of app.py\<close>

text \<open>
  The engine is \<^verbatim>\<open>simulate_inventory_cost\<close> of \<^verbatim>\<open>app.py\<close>; the script
  around it reads the sliders, calls the engine and scans seven store frequencies for
  the fill rate closest to 95 percent.

  Numbers. Python mixes \<^verbatim>\<open>int\<close> and \<^verbatim>\<open>float\<close> here; inventories, demand and the
  metrics are modelled as \<^typ>\<open>real\<close> (exact arithmetic, no rounding error), lead times,
  day numbers and slider values as \<^typ>\<open>int\<close>.

  Randomness. The ambient generator \<^verbatim>\<open>np.random\<close> is modelled as the sequence
  \<open>g :: nat \<Rightarrow> real\<close> of the standard normal variates it is going to produce, with the
  number of variates already consumed carried in the state. NumPy computes
  \<^verbatim>\<open>normal(loc, scale)\<close> as \<open>loc + scale * z\<close> for the next variate \<open>z\<close>, and
  raises \<^verbatim>\<open>ValueError\<close> when \<open>scale < 0\<close>.
\<close>

subsection \<open>Errors and the generator\<close>

datatype py_error = ZeroDivisionError | ValueError

type_synonym rng = "nat \<Rightarrow> real"

definition np_random_normal :: "rng \<Rightarrow> nat \<Rightarrow> real \<Rightarrow> real \<Rightarrow> py_error + (real \<times> nat)" where
  "np_random_normal g p loc scale =
     (if scale < 0 then Inl ValueError else Inr (loc + scale * g p, Suc p))"

text \<open>\<^verbatim>\<open>np.round\<close> rounds to the nearest integer, a tie to the even neighbour.\<close>

definition np_round :: "real \<Rightarrow> int" where
  "np_round x =
     (let f = \<lfloor>x\<rfloor>; d = x - of_int f
      in if d < 1 / 2 then f
         else if 1 / 2 < d then f + 1
         else if even f then f else f + 1)"

text \<open>\<^verbatim>\<open>np.mean\<close> of a Python list; of an empty list NumPy yields nan, which the
  engine never asks for (its traces have \<open>n_periods\<close> entries).\<close>

definition np_mean :: "real list \<Rightarrow> real" where
  "np_mean xs = sum_list xs / real (length xs)"

subsection \<open>Module parameters and slider values\<close>

definition n_periods :: nat where
  "n_periods = 365"

definition store_demand_mean :: int where
  "store_demand_mean = 100"

definition store_demand_std :: real where
  "store_demand_std = of_int store_demand_mean * 0.2"

text \<open>The slider values the engine reads as globals: lead times and holding costs.\<close>

record sliders =
  lt_store :: int
  lt_hub :: int
  lt_bakery :: int
  h_store :: int
  h_hub :: int
  h_bakery :: int

subsection \<open>The state of one run\<close>

record sim =
  store_inv :: "real list"
  hub_inv :: "real list"
  bakery_inv :: "real list"
  store_inventory :: real
  hub_inventory :: real
  bakery_inventory :: real
  total_demand :: real
  fulfilled_demand :: real
  stockout_days :: nat
  drawn :: nat

definition init_sim :: "nat \<Rightarrow> sim" where
  "init_sim p =
     \<lparr>store_inv = [], hub_inv = [], bakery_inv = [],
      store_inventory = 0, hub_inventory = 0, bakery_inventory = 0,
      total_demand = 0, fulfilled_demand = 0, stockout_days = 0, drawn = p\<rparr>"

subsection \<open>Lead-time sampling (line 51)\<close>

definition leadtime_variation :: "real \<Rightarrow> rng \<Rightarrow> nat \<Rightarrow> int \<Rightarrow> py_error + (int \<times> nat)" where
  "leadtime_variation lead_var g p base =
     (case np_random_normal g p (of_int base) (of_int base * lead_var) of
        Inl e \<Rightarrow> Inl e
      | Inr (x, p') \<Rightarrow> Inr (max 1 (np_round x), p'))"

subsection \<open>The body of the daily loop (lines 54 to 84)\<close>

text \<open>Lines 54 to 63: the day's demand and its fulfilment from the store.\<close>

definition daily_demand :: "rng \<Rightarrow> nat \<Rightarrow> real" where
  "daily_demand g p = max 0 (of_int store_demand_mean + store_demand_std * g p)"

definition fulfil_demand :: "rng \<Rightarrow> sim \<Rightarrow> py_error + sim" where
  "fulfil_demand g s =
     (case np_random_normal g (drawn s) (of_int store_demand_mean) store_demand_std of
        Inl e \<Rightarrow> Inl e
      | Inr (x, p') \<Rightarrow>
          let demand = max 0 x;
              fulfilled = min (store_inventory s) demand
          in Inr (s\<lparr>total_demand := total_demand s + demand,
                    fulfilled_demand := fulfilled_demand s + fulfilled,
                    stockout_days :=
                      (if store_inventory s < demand then stockout_days s + 1
                       else stockout_days s),
                    store_inventory := store_inventory s - fulfilled,
                    drawn := p'\<rparr>))"

text \<open>Lines 65 to 70: the store orders from the hub; \<^verbatim>\<open>day % store_days\<close> raises
  when \<open>store_days\<close> is 0.\<close>

definition replenish_store :: "sliders \<Rightarrow> int \<Rightarrow> real \<Rightarrow> rng \<Rightarrow> int \<Rightarrow> sim \<Rightarrow> py_error + sim" where
  "replenish_store cfg store_days lead_var g day s =
     (if store_days = 0 then Inl ZeroDivisionError
      else if day mod store_days = 0 then
        (case leadtime_variation lead_var g (drawn s) (lt_store cfg) of
           Inl e \<Rightarrow> Inl e
         | Inr (store_lead, p') \<Rightarrow>
             let qty = of_int (store_demand_mean * store_lead)
             in if hub_inventory s \<ge> qty
                then Inr (s\<lparr>store_inventory := store_inventory s + qty,
                           hub_inventory := hub_inventory s - qty,
                           drawn := p'\<rparr>)
                else Inr (s\<lparr>drawn := p'\<rparr>))
      else Inr s)"

text \<open>Lines 72 to 76: the hub orders from the bakery.\<close>

definition replenish_hub :: "sliders \<Rightarrow> int \<Rightarrow> real \<Rightarrow> rng \<Rightarrow> int \<Rightarrow> sim \<Rightarrow> py_error + sim" where
  "replenish_hub cfg hub_days lead_var g day s =
     (if hub_days = 0 then Inl ZeroDivisionError
      else if day mod hub_days = 0 then
        (case leadtime_variation lead_var g (drawn s) (lt_hub cfg) of
           Inl e \<Rightarrow> Inl e
         | Inr (hub_lead, p') \<Rightarrow>
             let qty = of_int (store_demand_mean * hub_lead)
             in Inr (s\<lparr>bakery_inventory := bakery_inventory s - qty,
                        hub_inventory := hub_inventory s + qty,
                        drawn := p'\<rparr>))
      else Inr s)"

text \<open>Lines 78 to 80: the bakery produces.\<close>

definition produce_bakery :: "sliders \<Rightarrow> int \<Rightarrow> real \<Rightarrow> rng \<Rightarrow> int \<Rightarrow> sim \<Rightarrow> py_error + sim" where
  "produce_bakery cfg hub_days lead_var g day s =
     (if hub_days = 0 then Inl ZeroDivisionError
      else if day mod hub_days = 0 then
        (case leadtime_variation lead_var g (drawn s) (lt_bakery cfg) of
           Inl e \<Rightarrow> Inl e
         | Inr (bakery_lead, p') \<Rightarrow>
             Inr (s\<lparr>bakery_inventory :=
                       bakery_inventory s + of_int (store_demand_mean * bakery_lead),
                     drawn := p'\<rparr>))
      else Inr s)"

text \<open>Lines 82 to 84: the three traces get the floored inventories.\<close>

definition record_trace :: "sim \<Rightarrow> sim" where
  "record_trace s =
     s\<lparr>store_inv := store_inv s @ [max 0 (store_inventory s)],
       hub_inv := hub_inv s @ [max 0 (hub_inventory s)],
       bakery_inv := bakery_inv s @ [max 0 (bakery_inventory s)]\<rparr>"

definition and_then :: "py_error + 'a \<Rightarrow> ('a \<Rightarrow> py_error + 'b) \<Rightarrow> py_error + 'b" where
  "and_then r f = (case r of Inl e \<Rightarrow> Inl e | Inr x \<Rightarrow> f x)"

definition day_step :: "sliders \<Rightarrow> int \<Rightarrow> int \<Rightarrow> real \<Rightarrow> rng \<Rightarrow> int \<Rightarrow> sim \<Rightarrow> py_error + sim" where
  "day_step cfg store_days hub_days lead_var g day s =
     and_then (fulfil_demand g s) (\<lambda>s1.
     and_then (replenish_store cfg store_days lead_var g day s1) (\<lambda>s2.
     and_then (replenish_hub cfg hub_days lead_var g day s2) (\<lambda>s3.
     and_then (produce_bakery cfg hub_days lead_var g day s3) (\<lambda>s4.
     Inr (record_trace s4)))))"

text \<open>The loop \<^verbatim>\<open>for day in range(n_periods)\<close>, over the list of its days.\<close>

fun run_days :: "sliders \<Rightarrow> int \<Rightarrow> int \<Rightarrow> real \<Rightarrow> rng \<Rightarrow> int list \<Rightarrow> sim \<Rightarrow> py_error + sim" where
  "run_days cfg store_days hub_days lead_var g [] s = Inr s"
| "run_days cfg store_days hub_days lead_var g (day # days) s =
     (case day_step cfg store_days hub_days lead_var g day s of
        Inl e \<Rightarrow> Inl e
      | Inr s' \<Rightarrow> run_days cfg store_days hub_days lead_var g days s')"

definition simulate_loop :: "sliders \<Rightarrow> int \<Rightarrow> int \<Rightarrow> real \<Rightarrow> rng \<Rightarrow> nat \<Rightarrow> py_error + sim" where
  "simulate_loop cfg store_days hub_days lead_var g p =
     run_days cfg store_days hub_days lead_var g (map int [0..<n_periods]) (init_sim p)"

subsection \<open>Aggregation and the engine's result (lines 86 to 93)\<close>

text \<open>
  \<open>total_demand\<close> is 0 only when every day's demand was the \<^verbatim>\<open>int\<close> 0 that
  \<^verbatim>\<open>max(0, ...)\<close> returns for a draw that is not positive; \<open>fulfilled_demand\<close> is
  then the \<^verbatim>\<open>int\<close> 0 as well, and Python's \<^verbatim>\<open>0 / 0\<close> raises.
  The result is the tuple the engine returns, with the generator's new position.
\<close>

type_synonym metrics = "real \<times> real \<times> real \<times> real \<times> real \<times> real"

definition aggregate :: "sliders \<Rightarrow> sim \<Rightarrow> py_error + metrics" where
  "aggregate cfg s =
     (let store_val = np_mean (store_inv s) * of_int (h_store cfg);
          hub_val = np_mean (hub_inv s) * of_int (h_hub cfg);
          bakery_val = np_mean (bakery_inv s) * of_int (h_bakery cfg)
      in if total_demand s = 0 then Inl ZeroDivisionError
         else
           let service_level = fulfilled_demand s / total_demand s;
               stockout_risk = real (stockout_days s) / real n_periods
           in Inr (store_val, hub_val, bakery_val, service_level, stockout_risk,
                   total_demand s))"

definition simulate_inventory_cost ::
  "sliders \<Rightarrow> int \<Rightarrow> int \<Rightarrow> real \<Rightarrow> rng \<Rightarrow> nat \<Rightarrow> py_error + (metrics \<times> nat)" where
  "simulate_inventory_cost cfg store_days hub_days lead_var g p =
     (case simulate_loop cfg store_days hub_days lead_var g p of
        Inl e \<Rightarrow> Inl e
      | Inr s \<Rightarrow>
          (case aggregate cfg s of
             Inl e \<Rightarrow> Inl e
           | Inr m \<Rightarrow> Inr (m, drawn s)))"

subsection \<open>The search for the 95 percent setting (lines 137 to 150)\<close>

text \<open>The dictionary \<^verbatim>\<open>best_setting\<close>, with its three keys.\<close>

record setting =
  freq :: int
  fill_rate_pct :: real
  total_cost :: real

text \<open>\<^verbatim>\<open>min_gap\<close> starts as \<^verbatim>\<open>float('inf')\<close>; every gap compares below it.\<close>

datatype py_float = Float_inf | Float real

fun float_lt :: "real \<Rightarrow> py_float \<Rightarrow> bool" where
  "float_lt x Float_inf = True"
| "float_lt x (Float y) = (x < y)"

definition target_fill :: real where
  "target_fill = 0.95"

text \<open>
  The loop \<^verbatim>\<open>for store_day in range(1, 8)\<close> over the list of its values. Each
  pass runs the engine with the default \<^verbatim>\<open>lead_var=0.2\<close> on the ambient generator,
  so the position of the generator is threaded through the passes.
\<close>

fun best_setting_loop ::
  "sliders \<Rightarrow> int \<Rightarrow> rng \<Rightarrow> int list \<Rightarrow> py_float \<times> setting option \<times> nat
     \<Rightarrow> py_error + (py_float \<times> setting option \<times> nat)" where
  "best_setting_loop cfg hub_days g [] acc = Inr acc"
| "best_setting_loop cfg hub_days g (store_day # rest) (min_gap, best_setting, p) =
     (case simulate_inventory_cost cfg store_day hub_days (1 / 5) g p of
        Inl e \<Rightarrow> Inl e
      | Inr ((s, h, b, level, _, _), p') \<Rightarrow>
          let gap = \<bar>level - target_fill\<bar>
          in if float_lt gap min_gap
             then best_setting_loop cfg hub_days g rest
                    (Float gap,
                     Some \<lparr>freq = store_day, fill_rate_pct = level * 100,
                           total_cost = s + h + b\<rparr>,
                     p')
             else best_setting_loop cfg hub_days g rest (min_gap, best_setting, p'))"

definition find_best_setting ::
  "sliders \<Rightarrow> int \<Rightarrow> rng \<Rightarrow> nat \<Rightarrow> py_error + (py_float \<times> setting option \<times> nat)" where
  "find_best_setting cfg hub_days g p =
     best_setting_loop cfg hub_days g (map int [1..<8]) (Float_inf, None, p)"

section \<open>Notions the statements use\<close>

text \<open>The lead time a draw \<open>z\<close> yields: the value \<open>leadtime_variation\<close> computes.\<close>

definition sampled_lead :: "real \<Rightarrow> int \<Rightarrow> real \<Rightarrow> int" where
  "sampled_lead lead_var base z = max 1 (np_round (of_int base + of_int base * lead_var * z))"

text \<open>No lead-time draw asks the generator for a negative scale.\<close>

definition scales_ok :: "sliders \<Rightarrow> real \<Rightarrow> bool" where
  "scales_ok cfg lead_var =
     (0 \<le> of_int (lt_store cfg) * lead_var \<and> 0 \<le> of_int (lt_hub cfg) * lead_var
      \<and> 0 \<le> of_int (lt_bakery cfg) * lead_var)"

definition stock_ok :: "sim \<Rightarrow> bool" where
  "stock_ok s = (0 \<le> store_inventory s \<and> 0 \<le> hub_inventory s)"

text \<open>Two generators that produce the same \<open>n\<close> variates from position \<open>p\<close> on.\<close>

definition same_draws :: "rng \<Rightarrow> rng \<Rightarrow> nat \<Rightarrow> nat \<Rightarrow> bool" where
  "same_draws g g' p n = (\<forall>i. p \<le> i \<and> i < p + n \<longrightarrow> g i = g' i)"

text \<open>The state in which day \<open>k\<close> of a run starts, the demand of that day, and whether
  the day counts as a stockout day.\<close>

definition state_at :: "sliders \<Rightarrow> int \<Rightarrow> int \<Rightarrow> real \<Rightarrow> rng \<Rightarrow> nat \<Rightarrow> nat \<Rightarrow> py_error + sim" where
  "state_at cfg sd hb lv g p k = run_days cfg sd hb lv g (map int [0..<k]) (init_sim p)"

definition demand_on_day :: "sliders \<Rightarrow> int \<Rightarrow> int \<Rightarrow> real \<Rightarrow> rng \<Rightarrow> nat \<Rightarrow> nat \<Rightarrow> real" where
  "demand_on_day cfg sd hb lv g p k =
     (case state_at cfg sd hb lv g p k of Inl e \<Rightarrow> 0 | Inr s \<Rightarrow> daily_demand g (drawn s))"

definition stockout_on_day :: "sliders \<Rightarrow> int \<Rightarrow> int \<Rightarrow> real \<Rightarrow> rng \<Rightarrow> nat \<Rightarrow> nat \<Rightarrow> bool" where
  "stockout_on_day cfg sd hb lv g p k =
     (case state_at cfg sd hb lv g p k of
        Inl e \<Rightarrow> False
      | Inr s \<Rightarrow> store_inventory s < daily_demand g (drawn s))"

text \<open>
  The candidates the search sees: the engine's results for the scanned store
  frequencies, in scan order, from the same generator positions. Over them the search
  is a pure scan, \<open>closest\<close>.
\<close>

fun sweep ::
  "sliders \<Rightarrow> int \<Rightarrow> rng \<Rightarrow> int list \<Rightarrow> nat \<Rightarrow> py_error + ((int \<times> metrics) list \<times> nat)" where
  "sweep cfg hub_days g [] p = Inr ([], p)"
| "sweep cfg hub_days g (store_day # rest) p =
     (case simulate_inventory_cost cfg store_day hub_days (1 / 5) g p of
        Inl e \<Rightarrow> Inl e
      | Inr (m, p') \<Rightarrow>
          (case sweep cfg hub_days g rest p' of
             Inl e \<Rightarrow> Inl e
           | Inr (ms, p'') \<Rightarrow> Inr ((store_day, m) # ms, p'')))"

fun gap_of :: "int \<times> metrics \<Rightarrow> real" where
  "gap_of (store_day, (s, h, b, level, _, _)) = \<bar>level - target_fill\<bar>"

fun setting_of :: "int \<times> metrics \<Rightarrow> setting" where
  "setting_of (store_day, (s, h, b, level, _, _)) =
     \<lparr>freq = store_day, fill_rate_pct = level * 100, total_cost = s + h + b\<rparr>"

fun closest :: "(int \<times> metrics) list \<Rightarrow> py_float \<times> setting option \<Rightarrow> py_float \<times> setting option" where
  "closest [] acc = acc"
| "closest (c # cs) (min_gap, best_setting) =
     (if float_lt (gap_of c) min_gap then closest cs (Float (gap_of c), Some (setting_of c))
      else closest cs (min_gap, best_setting))"

section \<open>Concrete inputs\<close>

text \<open>The slider defaults of the script; a setting with unit lead times; one whose
  bakery produces less than the hub orders.\<close>

definition cfg_default :: sliders where
  "cfg_default = \<lparr>lt_store = 1, lt_hub = 2, lt_bakery = 3, h_store = 20, h_hub = 18, h_bakery = 15\<rparr>"

definition cfg_ref :: sliders where
  "cfg_ref = \<lparr>lt_store = 1, lt_hub = 1, lt_bakery = 1, h_store = 20, h_hub = 18, h_bakery = 15\<rparr>"

definition cfg_tight :: sliders where
  "cfg_tight = \<lparr>lt_store = 1, lt_hub = 2, lt_bakery = 1, h_store = 20, h_hub = 18, h_bakery = 15\<rparr>"

text \<open>Draws that make the demand of days 0 and 1 of the reference run zero and every
  later demand 100.\<close>

definition g_ref :: rng where
  "g_ref i = (if i = 0 \<or> i = 4 then - 5 else 0)"

definition sim_with :: "real \<Rightarrow> real \<Rightarrow> real \<Rightarrow> sim" where
  "sim_with st hu ba =
     (init_sim 0)\<lparr>store_inventory := st, hub_inventory := hu, bakery_inventory := ba\<rparr>"

section \<open>Lemmas about the phases, the day and the run\<close>

lemma and_then_Inr [simp]: "and_then (Inr x) f = f x"
  by (simp add: and_then_def)

lemma and_then_Inl [simp]: "and_then (Inl e) f = Inl e"
  by (simp add: and_then_def)

lemma daily_demand_nonneg: "0 \<le> daily_demand g p"
  by (simp add: daily_demand_def)

lemma fulfil_demand_eq:
  "fulfil_demand g s =
     Inr (s\<lparr>total_demand := total_demand s + daily_demand g (drawn s),
            fulfilled_demand := fulfilled_demand s + min (store_inventory s) (daily_demand g (drawn s)),
            stockout_days := (if store_inventory s < daily_demand g (drawn s)
                              then stockout_days s + 1 else stockout_days s),
            store_inventory := store_inventory s - min (store_inventory s) (daily_demand g (drawn s)),
            drawn := Suc (drawn s)\<rparr>)"
  by (simp add: fulfil_demand_def np_random_normal_def daily_demand_def store_demand_std_def
      store_demand_mean_def Let_def)

lemma leadtime_variation_eq:
  "0 \<le> of_int base * lead_var \<Longrightarrow>
   leadtime_variation lead_var g p base = Inr (sampled_lead lead_var base (g p), Suc p)"
  by (simp add: leadtime_variation_def np_random_normal_def sampled_lead_def not_less [symmetric])

lemma leadtime_variation_err:
  "of_int base * lead_var < 0 \<Longrightarrow> leadtime_variation lead_var g p base = Inl ValueError"
  by (simp add: leadtime_variation_def np_random_normal_def)

lemma sampled_lead_ge_1: "1 \<le> sampled_lead lead_var base z"
  by (simp add: sampled_lead_def)

lemma np_round_of_int: "np_round (of_int n) = n"
  by (simp add: np_round_def)

lemma sampled_lead_zero_var: "1 \<le> base \<Longrightarrow> sampled_lead 0 base z = base"
  by (simp add: sampled_lead_def np_round_of_int)

lemma replenish_store_eq:
  assumes "store_days \<noteq> 0" and "0 \<le> of_int (lt_store cfg) * lead_var"
  shows "replenish_store cfg store_days lead_var g day s =
     Inr (if day mod store_days = 0 then
            (if of_int (store_demand_mean * sampled_lead lead_var (lt_store cfg) (g (drawn s)))
                  \<le> hub_inventory s
             then s\<lparr>store_inventory := store_inventory s
                        + of_int (store_demand_mean * sampled_lead lead_var (lt_store cfg) (g (drawn s))),
                    hub_inventory := hub_inventory s
                        - of_int (store_demand_mean * sampled_lead lead_var (lt_store cfg) (g (drawn s))),
                    drawn := Suc (drawn s)\<rparr>
             else s\<lparr>drawn := Suc (drawn s)\<rparr>)
          else s)"
  using assms by (simp add: replenish_store_def leadtime_variation_eq Let_def)

lemma replenish_hub_eq:
  assumes "hub_days \<noteq> 0" and "0 \<le> of_int (lt_hub cfg) * lead_var"
  shows "replenish_hub cfg hub_days lead_var g day s =
     Inr (if day mod hub_days = 0 then
            s\<lparr>bakery_inventory := bakery_inventory s
                  - of_int (store_demand_mean * sampled_lead lead_var (lt_hub cfg) (g (drawn s))),
              hub_inventory := hub_inventory s
                  + of_int (store_demand_mean * sampled_lead lead_var (lt_hub cfg) (g (drawn s))),
              drawn := Suc (drawn s)\<rparr>
          else s)"
  using assms by (simp add: replenish_hub_def leadtime_variation_eq Let_def)

lemma produce_bakery_eq:
  assumes "hub_days \<noteq> 0" and "0 \<le> of_int (lt_bakery cfg) * lead_var"
  shows "produce_bakery cfg hub_days lead_var g day s =
     Inr (if day mod hub_days = 0 then
            s\<lparr>bakery_inventory := bakery_inventory s
                  + of_int (store_demand_mean * sampled_lead lead_var (lt_bakery cfg) (g (drawn s))),
              drawn := Suc (drawn s)\<rparr>
          else s)"
  using assms by (simp add: produce_bakery_def leadtime_variation_eq Let_def)

lemma day_step_succeeds:
  assumes "store_days \<noteq> 0" and "hub_days \<noteq> 0" and "scales_ok cfg lead_var"
  shows "\<exists>s'. day_step cfg store_days hub_days lead_var g day s = Inr s'"
  using assms
  by (simp add: day_step_def scales_ok_def fulfil_demand_eq replenish_store_eq
      replenish_hub_eq produce_bakery_eq)

lemma run_days_append:
  "run_days cfg sd hb lv g (xs @ ys) s =
     and_then (run_days cfg sd hb lv g xs s) (run_days cfg sd hb lv g ys)"
  by (induction xs arbitrary: s) (auto split: sum.splits)

lemma run_days_succeeds:
  assumes "store_days \<noteq> 0" and "hub_days \<noteq> 0" and "scales_ok cfg lead_var"
  shows "\<exists>s'. run_days cfg store_days hub_days lead_var g days s = Inr s'"
proof (induction days arbitrary: s)
  case Nil
  show ?case by simp
next
  case (Cons d ds)
  obtain s1 where "day_step cfg store_days hub_days lead_var g d s = Inr s1"
    using day_step_succeeds [OF assms] by blast
  then show ?case using Cons.IH [of s1] by simp
qed

lemma leadtime_variation_Inr:
  assumes "leadtime_variation lead_var g p base = Inr (L, p')"
  shows "L = sampled_lead lead_var base (g p)" and "p' = Suc p" and "0 \<le> of_int base * lead_var"
  using assms
  by (auto simp: leadtime_variation_def np_random_normal_def sampled_lead_def split: if_splits)

lemma replenish_store_Inr:
  assumes "replenish_store cfg sd lv g day s = Inr s'"
  shows "sd \<noteq> 0"
    and "s' = (if day mod sd = 0 then
            (if of_int (store_demand_mean * sampled_lead lv (lt_store cfg) (g (drawn s)))
                  \<le> hub_inventory s
             then s\<lparr>store_inventory := store_inventory s
                        + of_int (store_demand_mean * sampled_lead lv (lt_store cfg) (g (drawn s))),
                    hub_inventory := hub_inventory s
                        - of_int (store_demand_mean * sampled_lead lv (lt_store cfg) (g (drawn s))),
                    drawn := Suc (drawn s)\<rparr>
             else s\<lparr>drawn := Suc (drawn s)\<rparr>)
          else s)"
  using assms
  by (auto simp: replenish_store_def Let_def dest: leadtime_variation_Inr
      split: if_splits sum.splits prod.splits)

lemma replenish_hub_Inr:
  assumes "replenish_hub cfg hb lv g day s = Inr s'"
  shows "hb \<noteq> 0"
    and "s' = (if day mod hb = 0 then
            s\<lparr>bakery_inventory := bakery_inventory s
                  - of_int (store_demand_mean * sampled_lead lv (lt_hub cfg) (g (drawn s))),
              hub_inventory := hub_inventory s
                  + of_int (store_demand_mean * sampled_lead lv (lt_hub cfg) (g (drawn s))),
              drawn := Suc (drawn s)\<rparr>
          else s)"
  using assms
  by (auto simp: replenish_hub_def Let_def dest: leadtime_variation_Inr
      split: if_splits sum.splits prod.splits)

lemma produce_bakery_Inr:
  assumes "produce_bakery cfg hb lv g day s = Inr s'"
  shows "hb \<noteq> 0"
    and "s' = (if day mod hb = 0 then
            s\<lparr>bakery_inventory := bakery_inventory s
                  + of_int (store_demand_mean * sampled_lead lv (lt_bakery cfg) (g (drawn s))),
              drawn := Suc (drawn s)\<rparr>
          else s)"
  using assms
  by (auto simp: produce_bakery_def Let_def dest: leadtime_variation_Inr
      split: if_splits sum.splits prod.splits)

lemma day_step_phases:
  assumes "day_step cfg sd hb lv g day s = Inr s'"
  obtains s1 s2 s3 s4 where "fulfil_demand g s = Inr s1"
    and "replenish_store cfg sd lv g day s1 = Inr s2"
    and "replenish_hub cfg hb lv g day s2 = Inr s3"
    and "produce_bakery cfg hb lv g day s3 = Inr s4"
    and "s' = record_trace s4"
  using assms by (auto simp: day_step_def and_then_def split: sum.splits)

lemma sampled_lead_qty_pos: "0 < (of_int (store_demand_mean * sampled_lead lv b z) :: real)"
  using sampled_lead_ge_1 [of lv b z] by (simp add: store_demand_mean_def)

lemma fulfil_demand_stock_ok:
  "fulfil_demand g s = Inr s' \<Longrightarrow> stock_ok s \<Longrightarrow> stock_ok s'"
  by (auto simp: fulfil_demand_eq stock_ok_def)

lemma replenish_store_stock_ok:
  "replenish_store cfg sd lv g day s = Inr s' \<Longrightarrow> stock_ok s \<Longrightarrow> stock_ok s'"
  using sampled_lead_qty_pos [of lv "lt_store cfg" "g (drawn s)"]
  by (auto simp: stock_ok_def dest!: replenish_store_Inr(2) split: if_splits)

lemma replenish_hub_stock_ok:
  "replenish_hub cfg hb lv g day s = Inr s' \<Longrightarrow> stock_ok s \<Longrightarrow> stock_ok s'"
  using sampled_lead_qty_pos [of lv "lt_hub cfg" "g (drawn s)"]
  by (auto simp: stock_ok_def dest!: replenish_hub_Inr(2) split: if_splits)

lemma produce_bakery_stock_ok:
  "produce_bakery cfg hb lv g day s = Inr s' \<Longrightarrow> stock_ok s \<Longrightarrow> stock_ok s'"
  by (auto simp: stock_ok_def dest!: produce_bakery_Inr(2) split: if_splits)

lemma record_trace_stock_ok: "stock_ok (record_trace s) = stock_ok s"
  by (simp add: stock_ok_def record_trace_def)

lemma day_step_stock_ok:
  assumes "day_step cfg sd hb lv g day s = Inr s'" and "stock_ok s"
  shows "stock_ok s'"
proof -
  from assms(1) obtain s1 s2 s3 s4 where p: "fulfil_demand g s = Inr s1"
    "replenish_store cfg sd lv g day s1 = Inr s2"
    "replenish_hub cfg hb lv g day s2 = Inr s3"
    "produce_bakery cfg hb lv g day s3 = Inr s4"
    "s' = record_trace s4"
    by (rule day_step_phases)
  from p(1) assms(2) have "stock_ok s1" by (rule fulfil_demand_stock_ok)
  with p(2) have "stock_ok s2" by (rule replenish_store_stock_ok)
  with p(3) have "stock_ok s3" by (rule replenish_hub_stock_ok)
  with p(4) have "stock_ok s4" by (rule produce_bakery_stock_ok)
  with p(5) show ?thesis by (simp add: record_trace_stock_ok)
qed

lemma run_days_stock_ok:
  "run_days cfg sd hb lv g days s = Inr s' \<Longrightarrow> stock_ok s \<Longrightarrow> stock_ok s'"
proof (induction days arbitrary: s)
  case Nil
  then show ?case by simp
next
  case (Cons d ds)
  from Cons.prems(1) obtain s1 where s1: "day_step cfg sd hb lv g d s = Inr s1"
    and rest: "run_days cfg sd hb lv g ds s1 = Inr s'"
    by (auto split: sum.splits)
  from s1 Cons.prems(2) have "stock_ok s1" by (rule day_step_stock_ok)
  with rest show ?case by (rule Cons.IH)
qed

lemma later_phases_keep:
  "replenish_store cfg sd lv g day s = Inr s' \<Longrightarrow>
     total_demand s' = total_demand s \<and> fulfilled_demand s' = fulfilled_demand s
     \<and> stockout_days s' = stockout_days s \<and> store_inv s' = store_inv s
     \<and> hub_inv s' = hub_inv s \<and> bakery_inv s' = bakery_inv s
     \<and> bakery_inventory s' = bakery_inventory s
     \<and> drawn s \<le> drawn s' \<and> drawn s' \<le> Suc (drawn s)"
  "replenish_hub cfg hb lv g day s = Inr s' \<Longrightarrow>
     total_demand s' = total_demand s \<and> fulfilled_demand s' = fulfilled_demand s
     \<and> stockout_days s' = stockout_days s \<and> store_inv s' = store_inv s
     \<and> hub_inv s' = hub_inv s \<and> bakery_inv s' = bakery_inv s
     \<and> store_inventory s' = store_inventory s
     \<and> drawn s \<le> drawn s' \<and> drawn s' \<le> Suc (drawn s)"
  "produce_bakery cfg hb lv g day s = Inr s' \<Longrightarrow>
     total_demand s' = total_demand s \<and> fulfilled_demand s' = fulfilled_demand s
     \<and> stockout_days s' = stockout_days s \<and> store_inv s' = store_inv s
     \<and> hub_inv s' = hub_inv s \<and> bakery_inv s' = bakery_inv s
     \<and> store_inventory s' = store_inventory s \<and> hub_inventory s' = hub_inventory s
     \<and> drawn s \<le> drawn s' \<and> drawn s' \<le> Suc (drawn s)"
  by (auto dest!: replenish_store_Inr(2) replenish_hub_Inr(2) produce_bakery_Inr(2) split: if_splits)

lemma day_step_accumulators:
  assumes "day_step cfg sd hb lv g day s = Inr s'"
  shows "total_demand s' = total_demand s + daily_demand g (drawn s)"
    and "fulfilled_demand s' =
           fulfilled_demand s + min (store_inventory s) (daily_demand g (drawn s))"
    and "stockout_days s' =
           (if store_inventory s < daily_demand g (drawn s) then stockout_days s + 1
            else stockout_days s)"
    and "drawn s < drawn s'" and "drawn s' \<le> drawn s + 4"
proof -
  from assms obtain s1 s2 s3 s4 where p: "fulfil_demand g s = Inr s1"
    "replenish_store cfg sd lv g day s1 = Inr s2"
    "replenish_hub cfg hb lv g day s2 = Inr s3"
    "produce_bakery cfg hb lv g day s3 = Inr s4"
    "s' = record_trace s4"
    by (rule day_step_phases)
  note k = later_phases_keep(1) [OF p(2)] later_phases_keep(2) [OF p(3)]
    later_phases_keep(3) [OF p(4)]
  from p(1) have s1: "s1 = s\<lparr>total_demand := total_demand s + daily_demand g (drawn s),
            fulfilled_demand := fulfilled_demand s + min (store_inventory s) (daily_demand g (drawn s)),
            stockout_days := (if store_inventory s < daily_demand g (drawn s)
                              then stockout_days s + 1 else stockout_days s),
            store_inventory := store_inventory s - min (store_inventory s) (daily_demand g (drawn s)),
            drawn := Suc (drawn s)\<rparr>"
    by (simp add: fulfil_demand_eq)
  have e: "total_demand s' = total_demand s1" "fulfilled_demand s' = fulfilled_demand s1"
    "stockout_days s' = stockout_days s1" "drawn s' = drawn s4"
    using k p(5) by (simp_all add: record_trace_def)
  show "total_demand s' = total_demand s + daily_demand g (drawn s)"
    using e(1) s1 by simp
  show "fulfilled_demand s' =
           fulfilled_demand s + min (store_inventory s) (daily_demand g (drawn s))"
    using e(2) s1 by simp
  show "stockout_days s' =
           (if store_inventory s < daily_demand g (drawn s) then stockout_days s + 1
            else stockout_days s)"
    using e(3) s1 by simp
  have d1: "drawn s1 = Suc (drawn s)" using s1 by simp
  show "drawn s < drawn s'" using e(4) d1 k by linarith
  show "drawn s' \<le> drawn s + 4" using e(4) d1 k by linarith
qed

lemma day_step_traces:
  assumes "day_step cfg sd hb lv g day s = Inr s'"
  shows "store_inv s' = store_inv s @ [max 0 (store_inventory s')]"
    and "hub_inv s' = hub_inv s @ [max 0 (hub_inventory s')]"
    and "bakery_inv s' = bakery_inv s @ [max 0 (bakery_inventory s')]"
proof -
  from assms obtain s1 s2 s3 s4 where p: "fulfil_demand g s = Inr s1"
    "replenish_store cfg sd lv g day s1 = Inr s2"
    "replenish_hub cfg hb lv g day s2 = Inr s3"
    "produce_bakery cfg hb lv g day s3 = Inr s4"
    "s' = record_trace s4"
    by (rule day_step_phases)
  note k = later_phases_keep(1) [OF p(2)] later_phases_keep(2) [OF p(3)]
    later_phases_keep(3) [OF p(4)]
  from p(1) have "store_inv s1 = store_inv s" "hub_inv s1 = hub_inv s"
    "bakery_inv s1 = bakery_inv s"
    by (auto simp: fulfil_demand_eq)
  with k have "store_inv s4 = store_inv s" "hub_inv s4 = hub_inv s"
    "bakery_inv s4 = bakery_inv s" by simp_all
  with p(5) show "store_inv s' = store_inv s @ [max 0 (store_inventory s')]"
    and "hub_inv s' = hub_inv s @ [max 0 (hub_inventory s')]"
    and "bakery_inv s' = bakery_inv s @ [max 0 (bakery_inventory s')]"
    by (simp_all add: record_trace_def)
qed

lemma run_days_Cons_Inr:
  assumes "run_days cfg sd hb lv g (d # ds) s = Inr s'"
  obtains s1 where "day_step cfg sd hb lv g d s = Inr s1"
    and "run_days cfg sd hb lv g ds s1 = Inr s'"
  using assms by (auto split: sum.splits)

lemma run_days_fill:
  "run_days cfg sd hb lv g days s = Inr s' \<Longrightarrow> stock_ok s \<Longrightarrow>
   0 \<le> fulfilled_demand s \<Longrightarrow> fulfilled_demand s \<le> total_demand s \<Longrightarrow>
   0 \<le> fulfilled_demand s' \<and> fulfilled_demand s' \<le> total_demand s'"
proof (induction days arbitrary: s)
  case Nil
  then show ?case by simp
next
  case (Cons d ds)
  from Cons.prems(1) obtain s1 where s1: "day_step cfg sd hb lv g d s = Inr s1"
    and rest: "run_days cfg sd hb lv g ds s1 = Inr s'"
    by (rule run_days_Cons_Inr)
  have ok1: "stock_ok s1" using s1 Cons.prems(2) by (rule day_step_stock_ok)
  have "0 \<le> store_inventory s" using Cons.prems(2) by (simp add: stock_ok_def)
  then have m: "0 \<le> min (store_inventory s) (daily_demand g (drawn s))"
    "min (store_inventory s) (daily_demand g (drawn s)) \<le> daily_demand g (drawn s)"
    using daily_demand_nonneg [of g "drawn s"] by simp_all
  have "0 \<le> fulfilled_demand s1" "fulfilled_demand s1 \<le> total_demand s1"
    using day_step_accumulators(1,2) [OF s1] m Cons.prems(3,4) by linarith+
  with rest ok1 show ?case by (rule Cons.IH)
qed

lemma run_days_lengths:
  "run_days cfg sd hb lv g days s = Inr s' \<Longrightarrow>
   length (store_inv s') = length (store_inv s) + length days
   \<and> length (hub_inv s') = length (hub_inv s) + length days
   \<and> length (bakery_inv s') = length (bakery_inv s) + length days"
proof (induction days arbitrary: s)
  case Nil
  then show ?case by simp
next
  case (Cons d ds)
  from Cons.prems(1) obtain s1 where s1: "day_step cfg sd hb lv g d s = Inr s1"
    and rest: "run_days cfg sd hb lv g ds s1 = Inr s'"
    by (rule run_days_Cons_Inr)
  have "length (store_inv s1) = Suc (length (store_inv s))"
    "length (hub_inv s1) = Suc (length (hub_inv s))"
    "length (bakery_inv s1) = Suc (length (bakery_inv s))"
    using day_step_traces [OF s1] by simp_all
  then show ?case using Cons.IH [OF rest] by simp
qed

lemma run_days_stockout:
  "run_days cfg sd hb lv g days s = Inr s' \<Longrightarrow>
   stockout_days s \<le> stockout_days s' \<and> stockout_days s' \<le> stockout_days s + length days"
proof (induction days arbitrary: s)
  case Nil
  then show ?case by simp
next
  case (Cons d ds)
  from Cons.prems(1) obtain s1 where s1: "day_step cfg sd hb lv g d s = Inr s1"
    and rest: "run_days cfg sd hb lv g ds s1 = Inr s'"
    by (rule run_days_Cons_Inr)
  have "stockout_days s \<le> stockout_days s1" "stockout_days s1 \<le> Suc (stockout_days s)"
    using day_step_accumulators(3) [OF s1] by (simp_all split: if_splits)
  then show ?case using Cons.IH [OF rest] by simp
qed

lemma run_days_total_mono:
  "run_days cfg sd hb lv g days s = Inr s' \<Longrightarrow> total_demand s \<le> total_demand s'"
proof (induction days arbitrary: s)
  case Nil
  then show ?case by simp
next
  case (Cons d ds)
  from Cons.prems(1) obtain s1 where s1: "day_step cfg sd hb lv g d s = Inr s1"
    and rest: "run_days cfg sd hb lv g ds s1 = Inr s'"
    by (rule run_days_Cons_Inr)
  have "total_demand s \<le> total_demand s1"
    using day_step_accumulators(1) [OF s1] daily_demand_nonneg [of g "drawn s"] by simp
  then show ?case using Cons.IH [OF rest] by simp
qed

lemma run_days_drawn:
  "run_days cfg sd hb lv g days s = Inr s' \<Longrightarrow>
   drawn s \<le> drawn s' \<and> drawn s' \<le> drawn s + 4 * length days"
proof (induction days arbitrary: s)
  case Nil
  then show ?case by simp
next
  case (Cons d ds)
  from Cons.prems(1) obtain s1 where s1: "day_step cfg sd hb lv g d s = Inr s1"
    and rest: "run_days cfg sd hb lv g ds s1 = Inr s'"
    by (rule run_days_Cons_Inr)
  show ?case using day_step_accumulators(4,5) [OF s1] Cons.IH [OF rest] by simp
qed

lemma run_days_traces_nonneg:
  "run_days cfg sd hb lv g days s = Inr s' \<Longrightarrow>
   list_all (\<lambda>x. 0 \<le> x) (store_inv s) \<Longrightarrow> list_all (\<lambda>x. 0 \<le> x) (hub_inv s) \<Longrightarrow>
   list_all (\<lambda>x. 0 \<le> x) (bakery_inv s) \<Longrightarrow>
   list_all (\<lambda>x. 0 \<le> x) (store_inv s') \<and> list_all (\<lambda>x. 0 \<le> x) (hub_inv s')
   \<and> list_all (\<lambda>x. 0 \<le> x) (bakery_inv s')"
proof (induction days arbitrary: s)
  case Nil
  then show ?case by simp
next
  case (Cons d ds)
  from Cons.prems(1) obtain s1 where s1: "day_step cfg sd hb lv g d s = Inr s1"
    and rest: "run_days cfg sd hb lv g ds s1 = Inr s'"
    by (rule run_days_Cons_Inr)
  have "list_all (\<lambda>x. 0 \<le> x) (store_inv s1)" "list_all (\<lambda>x. 0 \<le> x) (hub_inv s1)"
    "list_all (\<lambda>x. 0 \<le> x) (bakery_inv s1)"
    using day_step_traces [OF s1] Cons.prems(2,3,4) by simp_all
  with rest show ?case by (rule Cons.IH)
qed

lemma and_then_cong_Inr:
  "(\<And>x. r = Inr x \<Longrightarrow> f x = f' x) \<Longrightarrow> and_then r f = and_then r f'"
  by (cases r) simp_all

lemma phases_same_draw:
  assumes "g (drawn s) = g' (drawn s)"
  shows "fulfil_demand g s = fulfil_demand g' s"
    and "replenish_store cfg sd lv g day s = replenish_store cfg sd lv g' day s"
    and "replenish_hub cfg hb lv g day s = replenish_hub cfg hb lv g' day s"
    and "produce_bakery cfg hb lv g day s = produce_bakery cfg hb lv g' day s"
  using assms
  by (simp_all add: fulfil_demand_def replenish_store_def replenish_hub_def produce_bakery_def
      leadtime_variation_def np_random_normal_def)

lemma day_step_same_draws:
  assumes "same_draws g g' (drawn s) 4"
  shows "day_step cfg sd hb lv g day s = day_step cfg sd hb lv g' day s"
proof -
  have a: "\<And>i. drawn s \<le> i \<Longrightarrow> i < drawn s + 4 \<Longrightarrow> g i = g' i"
    using assms by (simp add: same_draws_def)
  have f: "fulfil_demand g s = fulfil_demand g' s"
    by (rule phases_same_draw) (simp add: a)
  show ?thesis
    unfolding day_step_def f
  proof (rule and_then_cong_Inr)
    fix s1 assume s1: "fulfil_demand g' s = Inr s1"
    then have d1: "drawn s1 = Suc (drawn s)" by (auto simp: fulfil_demand_eq)
    have r: "replenish_store cfg sd lv g day s1 = replenish_store cfg sd lv g' day s1"
      by (rule phases_same_draw) (simp add: a d1)
    show "and_then (replenish_store cfg sd lv g day s1)
            (\<lambda>s2. and_then (replenish_hub cfg hb lv g day s2)
              (\<lambda>s3. and_then (produce_bakery cfg hb lv g day s3) (\<lambda>s4. Inr (record_trace s4))))
        = and_then (replenish_store cfg sd lv g' day s1)
            (\<lambda>s2. and_then (replenish_hub cfg hb lv g' day s2)
              (\<lambda>s3. and_then (produce_bakery cfg hb lv g' day s3) (\<lambda>s4. Inr (record_trace s4))))"
      unfolding r
    proof (rule and_then_cong_Inr)
      fix s2 assume s2: "replenish_store cfg sd lv g' day s1 = Inr s2"
      have d2: "drawn s1 \<le> drawn s2" "drawn s2 \<le> Suc (drawn s1)"
        using later_phases_keep(1) [OF s2] by simp_all
      have h: "replenish_hub cfg hb lv g day s2 = replenish_hub cfg hb lv g' day s2"
        by (rule phases_same_draw) (rule a, use d1 d2 in linarith, use d1 d2 in linarith)
      show "and_then (replenish_hub cfg hb lv g day s2)
              (\<lambda>s3. and_then (produce_bakery cfg hb lv g day s3) (\<lambda>s4. Inr (record_trace s4)))
          = and_then (replenish_hub cfg hb lv g' day s2)
              (\<lambda>s3. and_then (produce_bakery cfg hb lv g' day s3) (\<lambda>s4. Inr (record_trace s4)))"
        unfolding h
      proof (rule and_then_cong_Inr)
        fix s3 assume s3: "replenish_hub cfg hb lv g' day s2 = Inr s3"
        have d3: "drawn s2 \<le> drawn s3" "drawn s3 \<le> Suc (drawn s2)"
          using later_phases_keep(2) [OF s3] by simp_all
        have b: "produce_bakery cfg hb lv g day s3 = produce_bakery cfg hb lv g' day s3"
          by (rule phases_same_draw) (rule a, use d1 d2 d3 in linarith, use d1 d2 d3 in linarith)
        show "and_then (produce_bakery cfg hb lv g day s3) (\<lambda>s4. Inr (record_trace s4))
            = and_then (produce_bakery cfg hb lv g' day s3) (\<lambda>s4. Inr (record_trace s4))"
          by (simp add: b)
      qed
    qed
  qed
qed

lemma same_draws_mono:
  "same_draws g g' p n \<Longrightarrow> p \<le> p' \<Longrightarrow> p' + n' \<le> p + n \<Longrightarrow> same_draws g g' p' n'"
  by (simp add: same_draws_def)

lemma run_days_same_draws:
  "same_draws g g' (drawn s) (4 * length days) \<Longrightarrow>
   run_days cfg sd hb lv g days s = run_days cfg sd hb lv g' days s"
proof (induction days arbitrary: s)
  case Nil
  show ?case by simp
next
  case (Cons d ds)
  have "same_draws g g' (drawn s) 4"
    using Cons.prems by (rule same_draws_mono) simp_all
  then have e: "day_step cfg sd hb lv g d s = day_step cfg sd hb lv g' d s"
    by (rule day_step_same_draws)
  show ?case
  proof (cases "day_step cfg sd hb lv g' d s")
    case (Inl err)
    then show ?thesis using e by simp
  next
    case (Inr s1)
    have "drawn s < drawn s1" "drawn s1 \<le> drawn s + 4"
      using day_step_accumulators(4,5) [OF Inr] by simp_all
    then have "same_draws g g' (drawn s1) (4 * length ds)"
      using Cons.prems by (intro same_draws_mono [OF Cons.prems]) simp_all
    then show ?thesis using Inr e Cons.IH [of s1] by simp
  qed
qed

lemma state_at_0: "state_at cfg sd hb lv g p 0 = Inr (init_sim p)"
  by (simp add: state_at_def)

lemma state_at_Suc:
  "state_at cfg sd hb lv g p (Suc k) =
     and_then (state_at cfg sd hb lv g p k) (day_step cfg sd hb lv g (int k))"
  by (simp add: state_at_def run_days_append and_then_def split: sum.splits)

lemma simulate_loop_state_at:
  "simulate_loop cfg sd hb lv g p = state_at cfg sd hb lv g p n_periods"
  by (simp add: simulate_loop_def state_at_def)

lemma scales_ok_ref: "scales_ok cfg_ref (1 / 5)"
  by (simp add: scales_ok_def cfg_ref_def)

lemma sampled_lead_ref: "sampled_lead (1 / 5) 1 0 = 1"
  by (simp add: sampled_lead_def np_round_def)

lemma sampled_lead_g_ref: "sampled_lead (1 / 5) 1 (g_ref i) = 1"
  by (simp add: sampled_lead_def np_round_def g_ref_def)

lemma daily_demand_ref: "daily_demand g_ref 0 = 0" "daily_demand g_ref 4 = 0"
  "8 \<le> i \<Longrightarrow> daily_demand g_ref i = 100"
  by (simp_all add: daily_demand_def g_ref_def store_demand_mean_def store_demand_std_def)

lemma day_step_ref:
  "day_step cfg_ref 1 1 (1 / 5) g day s =
     and_then (fulfil_demand g s) (\<lambda>s1.
     and_then (replenish_store cfg_ref 1 (1 / 5) g day s1) (\<lambda>s2.
     and_then (replenish_hub cfg_ref 1 (1 / 5) g day s2) (\<lambda>s3.
     and_then (produce_bakery cfg_ref 1 (1 / 5) g day s3) (\<lambda>s4.
     Inr (record_trace s4)))))"
  by (simp add: day_step_def)

lemma ref_two_days:
  "state_at cfg_ref 1 1 (1 / 5) g_ref 0 2 =
     Inr \<lparr>store_inv = [0, 100], hub_inv = [100, 100], bakery_inv = [0, 0],
          store_inventory = 100, hub_inventory = 100, bakery_inventory = 0,
          total_demand = 0, fulfilled_demand = 0, stockout_days = 0, drawn = 8\<rparr>"
proof -
  have l: "lt_store cfg_ref = 1" "lt_hub cfg_ref = 1" "lt_bakery cfg_ref = 1"
    by (simp_all add: cfg_ref_def)
  have g: "daily_demand g_ref (Suc (Suc (Suc (Suc 0)))) = 0"
    using daily_demand_ref(2) by (simp add: eval_nat_numeral)
  have s: "scales_ok cfg_ref (1 / 5)" by (rule scales_ok_ref)
  then have s': "0 \<le> real_of_int (lt_store cfg_ref) * (1 / 5)"
    "0 \<le> real_of_int (lt_hub cfg_ref) * (1 / 5)" "0 \<le> real_of_int (lt_bakery cfg_ref) * (1 / 5)"
    by (simp_all add: scales_ok_def)
  have two: "(2::nat) = Suc (Suc 0)" by simp
  show ?thesis
    unfolding two state_at_Suc state_at_0
    by (simp add: day_step_ref fulfil_demand_eq replenish_store_eq [OF _ s'(1)]
        replenish_hub_eq [OF _ s'(2)] produce_bakery_eq [OF _ s'(3)] record_trace_def
        init_sim_def l g daily_demand_ref sampled_lead_g_ref store_demand_mean_def)
qed

lemma g_ref_late: "8 \<le> i \<Longrightarrow> g_ref i = 0"
  by (simp add: g_ref_def)

lemma ref_closed_form:
  "state_at cfg_ref 1 1 (1 / 5) g_ref 0 (Suc (Suc n)) =
     Inr \<lparr>store_inv = 0 # replicate (Suc n) 100, hub_inv = replicate (Suc (Suc n)) 100,
          bakery_inv = replicate (Suc (Suc n)) 0,
          store_inventory = 100, hub_inventory = 100, bakery_inventory = 0,
          total_demand = 100 * real n, fulfilled_demand = 100 * real n,
          stockout_days = 0, drawn = 8 + 4 * n\<rparr>"
proof (induction n)
  case 0
  show ?case using ref_two_days by (simp add: numeral_2_eq_2)
next
  case (Suc n)
  have l: "lt_store cfg_ref = 1" "lt_hub cfg_ref = 1" "lt_bakery cfg_ref = 1"
    by (simp_all add: cfg_ref_def)
  have s: "scales_ok cfg_ref (1 / 5)" by (rule scales_ok_ref)
  then have s': "0 \<le> real_of_int (lt_store cfg_ref) * (1 / 5)"
    "0 \<le> real_of_int (lt_hub cfg_ref) * (1 / 5)" "0 \<le> real_of_int (lt_bakery cfg_ref) * (1 / 5)"
    by (simp_all add: scales_ok_def)
  show ?case
    unfolding state_at_Suc [of _ _ _ _ _ _ "Suc (Suc n)"] Suc.IH
    by (simp add: day_step_ref fulfil_demand_eq replenish_store_eq [OF _ s'(1)]
        replenish_hub_eq [OF _ s'(2)] produce_bakery_eq [OF _ s'(3)] record_trace_def
        l daily_demand_ref sampled_lead_g_ref store_demand_mean_def
        replicate_append_same distrib_left)
qed

lemma ref_final_state:
  "simulate_loop cfg_ref 1 1 (1 / 5) g_ref 0 =
     Inr \<lparr>store_inv = 0 # replicate 364 100, hub_inv = replicate 365 100,
          bakery_inv = replicate 365 0,
          store_inventory = 100, hub_inventory = 100, bakery_inventory = 0,
          total_demand = 36300, fulfilled_demand = 36300,
          stockout_days = 0, drawn = 1460\<rparr>"
proof -
  have "n_periods = Suc (Suc 363)" by (simp add: n_periods_def)
  then show ?thesis
    unfolding simulate_loop_state_at using ref_closed_form [of 363] by simp
qed

lemma ref_result:
  "simulate_inventory_cost cfg_ref 1 1 (1 / 5) g_ref 0 =
     Inr ((145600 / 73, 1800, 0, 1, 0, 36300), 1460)"
  unfolding simulate_inventory_cost_def ref_final_state
  by (simp add: aggregate_def np_mean_def sum_list_replicate cfg_ref_def n_periods_def Let_def)

lemma best_setting_loop_closest:
  "sweep cfg hb g days p = Inr (cands, p') \<Longrightarrow>
   best_setting_loop cfg hb g days (mg, bs, p) =
     Inr (fst (closest cands (mg, bs)), snd (closest cands (mg, bs)), p')"
proof (induction days arbitrary: p cands mg bs)
  case Nil
  then show ?case by simp
next
  case (Cons d ds)
  from Cons.prems obtain m p1 ms where
    m: "simulate_inventory_cost cfg d hb (1 / 5) g p = Inr (m, p1)"
    and ms: "sweep cfg hb g ds p1 = Inr (ms, p')" and c: "cands = (d, m) # ms"
    by (auto split: sum.splits prod.splits)
  obtain s h b level risk td where mm: "m = (s, h, b, level, risk, td)"
    by (cases m) auto
  show ?case
    using m mm c Cons.IH [OF ms] by (simp add: Let_def)
qed

lemma sweep_days: "sweep cfg hb g days p = Inr (cands, p') \<Longrightarrow> map fst cands = days"
proof (induction days arbitrary: p cands)
  case Nil
  then show ?case by simp
next
  case (Cons d ds)
  from Cons.prems obtain m p1 ms where
    ms: "sweep cfg hb g ds p1 = Inr (ms, p')" and c: "cands = (d, m) # ms"
    by (auto split: sum.splits prod.splits)
  then show ?case using Cons.IH [OF ms] by simp
qed

lemma closest_from_bound:
  "closest cs (Float m, bs) = (Float m, bs) \<and> (\<forall>j<length cs. m \<le> gap_of (cs ! j))
   \<or> (\<exists>i<length cs. closest cs (Float m, bs) = (Float (gap_of (cs ! i)), Some (setting_of (cs ! i)))
         \<and> gap_of (cs ! i) < m
         \<and> (\<forall>j<length cs. gap_of (cs ! i) \<le> gap_of (cs ! j))
         \<and> (\<forall>j<i. gap_of (cs ! i) < gap_of (cs ! j)))"
proof (induction cs arbitrary: m bs)
  case Nil
  show ?case by simp
next
  case (Cons c cs)
  show ?case
  proof (cases "gap_of c < m")
    case True
    then have step: "closest (c # cs) (Float m, bs) = closest cs (Float (gap_of c), Some (setting_of c))"
      by simp
    from Cons.IH [of "gap_of c" "Some (setting_of c)"] show ?thesis
    proof
      assume a: "closest cs (Float (gap_of c), Some (setting_of c)) = (Float (gap_of c), Some (setting_of c))
        \<and> (\<forall>j<length cs. gap_of c \<le> gap_of (cs ! j))"
      have "\<forall>j<length (c # cs). gap_of ((c # cs) ! 0) \<le> gap_of ((c # cs) ! j)"
        using a by (auto simp: nth_Cons')
      then have "0 < length (c # cs) \<and> closest (c # cs) (Float m, bs) =
          (Float (gap_of ((c # cs) ! 0)), Some (setting_of ((c # cs) ! 0)))
        \<and> gap_of ((c # cs) ! 0) < m
        \<and> (\<forall>j<length (c # cs). gap_of ((c # cs) ! 0) \<le> gap_of ((c # cs) ! j))
        \<and> (\<forall>j<0. gap_of ((c # cs) ! 0) < gap_of ((c # cs) ! j))"
        using a step True by simp
      then show ?thesis by blast
    next
      assume "\<exists>i<length cs. closest cs (Float (gap_of c), Some (setting_of c)) =
          (Float (gap_of (cs ! i)), Some (setting_of (cs ! i)))
         \<and> gap_of (cs ! i) < gap_of c
         \<and> (\<forall>j<length cs. gap_of (cs ! i) \<le> gap_of (cs ! j))
         \<and> (\<forall>j<i. gap_of (cs ! i) < gap_of (cs ! j))"
      then obtain i where i: "i < length cs"
        "closest cs (Float (gap_of c), Some (setting_of c)) =
          (Float (gap_of (cs ! i)), Some (setting_of (cs ! i)))"
        "gap_of (cs ! i) < gap_of c"
        "\<forall>j<length cs. gap_of (cs ! i) \<le> gap_of (cs ! j)"
        "\<forall>j<i. gap_of (cs ! i) < gap_of (cs ! j)"
        by blast
      have "Suc i < length (c # cs) \<and> closest (c # cs) (Float m, bs) =
          (Float (gap_of ((c # cs) ! Suc i)), Some (setting_of ((c # cs) ! Suc i)))
        \<and> gap_of ((c # cs) ! Suc i) < m
        \<and> (\<forall>j<length (c # cs). gap_of ((c # cs) ! Suc i) \<le> gap_of ((c # cs) ! j))
        \<and> (\<forall>j<Suc i. gap_of ((c # cs) ! Suc i) < gap_of ((c # cs) ! j))"
        using i step True by (auto simp: nth_Cons' less_Suc_eq_0_disj)
      then show ?thesis by blast
    qed
  next
    case False
    then have step: "closest (c # cs) (Float m, bs) = closest cs (Float m, bs)"
      by simp
    from Cons.IH [of m bs] show ?thesis
    proof
      assume a: "closest cs (Float m, bs) = (Float m, bs) \<and> (\<forall>j<length cs. m \<le> gap_of (cs ! j))"
      then have "closest (c # cs) (Float m, bs) = (Float m, bs)
        \<and> (\<forall>j<length (c # cs). m \<le> gap_of ((c # cs) ! j))"
        using step False by (auto simp: nth_Cons')
      then show ?thesis by blast
    next
      assume "\<exists>i<length cs. closest cs (Float m, bs) =
          (Float (gap_of (cs ! i)), Some (setting_of (cs ! i)))
         \<and> gap_of (cs ! i) < m
         \<and> (\<forall>j<length cs. gap_of (cs ! i) \<le> gap_of (cs ! j))
         \<and> (\<forall>j<i. gap_of (cs ! i) < gap_of (cs ! j))"
      then obtain i where i: "i < length cs"
        "closest cs (Float m, bs) = (Float (gap_of (cs ! i)), Some (setting_of (cs ! i)))"
        "gap_of (cs ! i) < m"
        "\<forall>j<length cs. gap_of (cs ! i) \<le> gap_of (cs ! j)"
        "\<forall>j<i. gap_of (cs ! i) < gap_of (cs ! j)"
        by blast
      have "Suc i < length (c # cs) \<and> closest (c # cs) (Float m, bs) =
          (Float (gap_of ((c # cs) ! Suc i)), Some (setting_of ((c # cs) ! Suc i)))
        \<and> gap_of ((c # cs) ! Suc i) < m
        \<and> (\<forall>j<length (c # cs). gap_of ((c # cs) ! Suc i) \<le> gap_of ((c # cs) ! j))
        \<and> (\<forall>j<Suc i. gap_of ((c # cs) ! Suc i) < gap_of ((c # cs) ! j))"
        using i step False by (auto simp: nth_Cons' less_Suc_eq_0_disj)
      then show ?thesis by blast
    qed
  qed
qed

lemma closest_first_min:
  assumes "cs \<noteq> []"
  shows "\<exists>i<length cs. closest cs (Float_inf, None) = (Float (gap_of (cs ! i)), Some (setting_of (cs ! i)))
         \<and> (\<forall>j<length cs. gap_of (cs ! i) \<le> gap_of (cs ! j))
         \<and> (\<forall>j<i. gap_of (cs ! i) < gap_of (cs ! j))"
proof -
  from assms obtain c cs' where cs: "cs = c # cs'" by (cases cs) auto
  have step: "closest cs (Float_inf, None) = closest cs' (Float (gap_of c), Some (setting_of c))"
    by (simp add: cs)
  from closest_from_bound [of cs' "gap_of c" "Some (setting_of c)"] show ?thesis
  proof
    assume a: "closest cs' (Float (gap_of c), Some (setting_of c)) = (Float (gap_of c), Some (setting_of c))
      \<and> (\<forall>j<length cs'. gap_of c \<le> gap_of (cs' ! j))"
    have "0 < length cs \<and> closest cs (Float_inf, None) = (Float (gap_of (cs ! 0)), Some (setting_of (cs ! 0)))
         \<and> (\<forall>j<length cs. gap_of (cs ! 0) \<le> gap_of (cs ! j))
         \<and> (\<forall>j<0. gap_of (cs ! 0) < gap_of (cs ! j))"
      using a step by (auto simp: cs nth_Cons')
    then show ?thesis by blast
  next
    assume "\<exists>i<length cs'. closest cs' (Float (gap_of c), Some (setting_of c)) =
          (Float (gap_of (cs' ! i)), Some (setting_of (cs' ! i)))
         \<and> gap_of (cs' ! i) < gap_of c
         \<and> (\<forall>j<length cs'. gap_of (cs' ! i) \<le> gap_of (cs' ! j))
         \<and> (\<forall>j<i. gap_of (cs' ! i) < gap_of (cs' ! j))"
    then obtain i where i: "i < length cs'"
      "closest cs' (Float (gap_of c), Some (setting_of c)) =
          (Float (gap_of (cs' ! i)), Some (setting_of (cs' ! i)))"
      "gap_of (cs' ! i) < gap_of c"
      "\<forall>j<length cs'. gap_of (cs' ! i) \<le> gap_of (cs' ! j)"
      "\<forall>j<i. gap_of (cs' ! i) < gap_of (cs' ! j)"
      by blast
    have "Suc i < length cs \<and> closest cs (Float_inf, None) =
          (Float (gap_of (cs ! Suc i)), Some (setting_of (cs ! Suc i)))
        \<and> (\<forall>j<length cs. gap_of (cs ! Suc i) \<le> gap_of (cs ! j))
        \<and> (\<forall>j<Suc i. gap_of (cs ! Suc i) < gap_of (cs ! j))"
      using i step by (auto simp: cs nth_Cons' less_Suc_eq_0_disj)
    then show ?thesis by blast
  qed
qed

lemma state_at_Suc_Inr:
  assumes "state_at cfg sd hb lv g p (Suc k) = Inr s'"
  obtains s where "state_at cfg sd hb lv g p k = Inr s"
    and "day_step cfg sd hb lv g (int k) s = Inr s'"
  using assms by (cases "state_at cfg sd hb lv g p k") (simp_all add: state_at_Suc)

lemma state_at_succeeds:
  assumes "sd \<noteq> 0" and "hb \<noteq> 0" and "scales_ok cfg lv"
  shows "\<exists>s. state_at cfg sd hb lv g p k = Inr s"
  unfolding state_at_def using assms by (rule run_days_succeeds)

lemma state_at_stock_ok: "state_at cfg sd hb lv g p k = Inr s \<Longrightarrow> stock_ok s"
  unfolding state_at_def by (erule run_days_stock_ok) (simp add: stock_ok_def init_sim_def)

lemma state_at_fill:
  "state_at cfg sd hb lv g p k = Inr s \<Longrightarrow>
   0 \<le> fulfilled_demand s \<and> fulfilled_demand s \<le> total_demand s"
  unfolding state_at_def
  by (erule run_days_fill) (simp_all add: stock_ok_def init_sim_def)

lemma state_at_lengths:
  "state_at cfg sd hb lv g p k = Inr s \<Longrightarrow>
   length (store_inv s) = k \<and> length (hub_inv s) = k \<and> length (bakery_inv s) = k"
  unfolding state_at_def by (drule run_days_lengths) (simp add: init_sim_def)

lemma state_at_traces_nonneg:
  "state_at cfg sd hb lv g p k = Inr s \<Longrightarrow>
   list_all (\<lambda>x. 0 \<le> x) (store_inv s) \<and> list_all (\<lambda>x. 0 \<le> x) (hub_inv s)
   \<and> list_all (\<lambda>x. 0 \<le> x) (bakery_inv s)"
  unfolding state_at_def by (erule run_days_traces_nonneg) (simp_all add: init_sim_def)

lemma state_at_drawn:
  "state_at cfg sd hb lv g p k = Inr s \<Longrightarrow> p \<le> drawn s \<and> drawn s \<le> p + 4 * k"
  unfolding state_at_def by (drule run_days_drawn) (simp add: init_sim_def)

lemma state_at_same_draws:
  "same_draws g g' p (4 * k) \<Longrightarrow> state_at cfg sd hb lv g p k = state_at cfg sd hb lv g' p k"
  unfolding state_at_def by (rule run_days_same_draws) (simp add: init_sim_def)

lemma stockout_count:
  "state_at cfg sd hb lv g p k = Inr s \<Longrightarrow>
   stockout_days s = length (filter (stockout_on_day cfg sd hb lv g p) [0..<k])"
proof (induction k arbitrary: s)
  case 0
  then show ?case by (auto simp: state_at_0 init_sim_def)
next
  case (Suc k)
  from Suc.prems obtain s0 where s0: "state_at cfg sd hb lv g p k = Inr s0"
    and st: "day_step cfg sd hb lv g (int k) s0 = Inr s"
    by (rule state_at_Suc_Inr)
  have "stockout_on_day cfg sd hb lv g p k = (store_inventory s0 < daily_demand g (drawn s0))"
    by (simp add: stockout_on_day_def s0)
  then show ?case
    using Suc.IH [OF s0] day_step_accumulators(3) [OF st] by simp
qed

lemma total_demand_sum:
  "state_at cfg sd hb lv g p k = Inr s \<Longrightarrow>
   total_demand s = (\<Sum>i<k. demand_on_day cfg sd hb lv g p i)"
proof (induction k arbitrary: s)
  case 0
  then show ?case by (auto simp: state_at_0 init_sim_def)
next
  case (Suc k)
  from Suc.prems obtain s0 where s0: "state_at cfg sd hb lv g p k = Inr s0"
    and st: "day_step cfg sd hb lv g (int k) s0 = Inr s"
    by (rule state_at_Suc_Inr)
  have "demand_on_day cfg sd hb lv g p k = daily_demand g (drawn s0)"
    by (simp add: demand_on_day_def s0)
  then show ?case
    using Suc.IH [OF s0] day_step_accumulators(1) [OF st] by simp
qed

lemma demand_on_day_nonneg: "0 \<le> demand_on_day cfg sd hb lv g p k"
  by (simp add: demand_on_day_def daily_demand_nonneg split: sum.splits)

lemma total_demand_zero_iff:
  assumes "state_at cfg sd hb lv g p k = Inr s"
  shows "total_demand s = 0 \<longleftrightarrow> (\<forall>i<k. demand_on_day cfg sd hb lv g p i = 0)"
proof -
  have "(\<Sum>i<k. demand_on_day cfg sd hb lv g p i) = 0
      \<longleftrightarrow> (\<forall>i\<in>{..<k}. demand_on_day cfg sd hb lv g p i = 0)"
    by (rule sum_nonneg_eq_0_iff) (simp_all add: demand_on_day_nonneg)
  then show ?thesis using total_demand_sum [OF assms] by auto
qed

lemma total_demand_nonneg:
  assumes "state_at cfg sd hb lv g p k = Inr s"
  shows "0 \<le> total_demand s"
  unfolding total_demand_sum [OF assms] by (rule sum_nonneg) (simp add: demand_on_day_nonneg)

lemma simulate_Inr:
  assumes "simulate_inventory_cost cfg sd hb lv g p = Inr (m, p')"
  obtains s where "simulate_loop cfg sd hb lv g p = Inr s" and "total_demand s \<noteq> 0"
    and "m = (np_mean (store_inv s) * of_int (h_store cfg),
              np_mean (hub_inv s) * of_int (h_hub cfg),
              np_mean (bakery_inv s) * of_int (h_bakery cfg),
              fulfilled_demand s / total_demand s,
              real (stockout_days s) / real n_periods,
              total_demand s)"
    and "p' = drawn s"
  using assms
  by (auto simp: simulate_inventory_cost_def aggregate_def Let_def split: sum.splits if_splits)

lemma simulate_of_loop:
  assumes "simulate_loop cfg sd hb lv g p = Inr s"
  shows "simulate_inventory_cost cfg sd hb lv g p =
     (if total_demand s = 0 then Inl ZeroDivisionError
      else Inr ((np_mean (store_inv s) * of_int (h_store cfg),
              np_mean (hub_inv s) * of_int (h_hub cfg),
              np_mean (bakery_inv s) * of_int (h_bakery cfg),
              fulfilled_demand s / total_demand s,
              real (stockout_days s) / real n_periods,
              total_demand s), drawn s))"
  using assms by (simp add: simulate_inventory_cost_def aggregate_def Let_def)

lemma zero_demand_raises:
  assumes "sd \<noteq> 0" and "hb \<noteq> 0" and "scales_ok cfg lv"
    and "\<And>i. daily_demand g i = 0"
  shows "simulate_inventory_cost cfg sd hb lv g p = Inl ZeroDivisionError"
proof -
  obtain s where s: "state_at cfg sd hb lv g p n_periods = Inr s"
    using state_at_succeeds [OF assms(1,2,3)] by blast
  have "\<forall>i<n_periods. demand_on_day cfg sd hb lv g p i = 0"
    by (simp add: demand_on_day_def assms(4) split: sum.splits)
  then have "total_demand s = 0" using total_demand_zero_iff [OF s] by simp
  then show ?thesis
    using simulate_of_loop [of cfg sd hb lv g p s] s by (simp add: simulate_loop_state_at)
qed

lemmas eval_defs = leadtime_variation_def np_random_normal_def np_round_def sim_with_def
  init_sim_def cfg_tight_def store_demand_mean_def store_demand_std_def daily_demand_def

lemma tight_two_days:
  "state_at cfg_tight 1 1 0 (\<lambda>_. 0) 0 1 =
     Inr \<lparr>store_inv = [0], hub_inv = [200], bakery_inv = [0],
          store_inventory = 0, hub_inventory = 200, bakery_inventory = - 100,
          total_demand = 100, fulfilled_demand = 0, stockout_days = 1, drawn = 4\<rparr>"
  "state_at cfg_tight 1 1 0 (\<lambda>_. 0) 0 2 =
     Inr \<lparr>store_inv = [0, 100], hub_inv = [200, 300], bakery_inv = [0, 0],
          store_inventory = 100, hub_inventory = 300, bakery_inventory = - 200,
          total_demand = 200, fulfilled_demand = 0, stockout_days = 2, drawn = 8\<rparr>"
proof -
  have l: "lt_store cfg_tight = 1" "lt_hub cfg_tight = 2" "lt_bakery cfg_tight = 1"
    by (simp_all add: cfg_tight_def)
  have d: "\<And>i. daily_demand (\<lambda>_. 0) i = 100"
    by (simp add: daily_demand_def store_demand_mean_def store_demand_std_def)
  have s: "0 \<le> real_of_int (lt_store cfg_tight) * 0" "0 \<le> real_of_int (lt_hub cfg_tight) * 0"
    "0 \<le> real_of_int (lt_bakery cfg_tight) * 0"
    by simp_all
  have one: "(1::nat) = Suc 0" and two: "(2::nat) = Suc (Suc 0)" by simp_all
  note ev = day_step_def fulfil_demand_eq replenish_store_eq [OF _ s(1)]
    replenish_hub_eq [OF _ s(2)] produce_bakery_eq [OF _ s(3)] record_trace_def
    init_sim_def l d sampled_lead_zero_var store_demand_mean_def
  show "state_at cfg_tight 1 1 0 (\<lambda>_. 0) 0 1 =
     Inr \<lparr>store_inv = [0], hub_inv = [200], bakery_inv = [0],
          store_inventory = 0, hub_inventory = 200, bakery_inventory = - 100,
          total_demand = 100, fulfilled_demand = 0, stockout_days = 1, drawn = 4\<rparr>"
    unfolding one state_at_Suc state_at_0 by (simp add: ev)
  show "state_at cfg_tight 1 1 0 (\<lambda>_. 0) 0 2 =
     Inr \<lparr>store_inv = [0, 100], hub_inv = [200, 300], bakery_inv = [0, 0],
          store_inventory = 100, hub_inventory = 300, bakery_inventory = - 200,
          total_demand = 200, fulfilled_demand = 0, stockout_days = 2, drawn = 8\<rparr>"
    unfolding two state_at_Suc state_at_0 by (simp add: ev)
qed

lemma simulate_succeeds:
  assumes "sd \<noteq> 0" and "hb \<noteq> 0" and "scales_ok cfg lv" and "0 < daily_demand g p"
  shows "\<exists>m p'. simulate_inventory_cost cfg sd hb lv g p = Inr (m, p')"
proof -
  obtain s where s: "state_at cfg sd hb lv g p n_periods = Inr s"
    using state_at_succeeds [OF assms(1,2,3)] by blast
  have "demand_on_day cfg sd hb lv g p 0 = daily_demand g p"
    by (simp add: demand_on_day_def state_at_0 init_sim_def)
  then have "\<not> (\<forall>i<n_periods. demand_on_day cfg sd hb lv g p i = 0)"
    using assms(4) by (auto simp: n_periods_def intro!: exI [of _ 0])
  then have "total_demand s \<noteq> 0" using total_demand_zero_iff [OF s] by simp
  then show ?thesis
    using simulate_of_loop [of cfg sd hb lv g p s] s by (simp add: simulate_loop_state_at)
qed

lemma sweep_succeeds:
  assumes "hb \<noteq> 0" and "scales_ok cfg (1 / 5)" and "\<And>i. 0 < daily_demand g i"
  shows "0 \<notin> set days \<Longrightarrow> \<exists>cands p'. sweep cfg hb g days p = Inr (cands, p')"
proof (induction days arbitrary: p)
  case Nil
  show ?case by simp
next
  case (Cons d ds)
  then have "d \<noteq> 0" and r: "0 \<notin> set ds" by auto
  then obtain m p1 where m: "simulate_inventory_cost cfg d hb (1 / 5) g p = Inr (m, p1)"
    using simulate_succeeds [OF _ assms(1,2) assms(3) [of p], of d] by blast
  obtain ms p2 where "sweep cfg hb g ds p1 = Inr (ms, p2)"
    using Cons.IH [OF r, of p1] by blast
  with m show ?case by simp
qed

section \<open>The claims\<close>

subsection \<open>C1: store replenishment is all or nothing\<close>

text \<open>
  Claim C1. On a day with \<open>day mod store_days = 0\<close> the store orders
  \<open>qty = store_demand_mean * store_lead\<close> for its sampled lead time. When the hub holds
  at least \<open>qty\<close>, exactly \<open>qty\<close> leaves the hub and enters the store; when it holds
  less, the step leaves store and hub as they were. The bakery is not touched. Hence,
  over the whole day, a store whose order met an insufficient hub ends the day with what
  fulfilment left it, which is no more than the store started with (a store that holds
  no negative stock, as every store of a run does).
\<close>

theorem store_replenishment_all_or_nothing:
  assumes "store_days \<noteq> 0" and "day mod store_days = 0"
    and "leadtime_variation lead_var g (drawn s) (lt_store cfg) = Inr (store_lead, p1)"
  shows "\<exists>s'. replenish_store cfg store_days lead_var g day s = Inr s'
      \<and> (of_int (store_demand_mean * store_lead) \<le> hub_inventory s \<longrightarrow>
           hub_inventory s' = hub_inventory s - of_int (store_demand_mean * store_lead)
           \<and> store_inventory s' = store_inventory s + of_int (store_demand_mean * store_lead))
      \<and> (hub_inventory s < of_int (store_demand_mean * store_lead) \<longrightarrow>
           hub_inventory s' = hub_inventory s \<and> store_inventory s' = store_inventory s)
      \<and> bakery_inventory s' = bakery_inventory s \<and> drawn s' = p1
      \<and> (\<forall>s0 s9. 0 \<le> store_inventory s0 \<and> fulfil_demand g s0 = Inr s
             \<and> day_step cfg store_days hub_days lead_var g day s0 = Inr s9
             \<and> hub_inventory s < of_int (store_demand_mean * store_lead)
             \<longrightarrow> store_inventory s9 = store_inventory s \<and> store_inventory s9 \<le> store_inventory s0)"
proof -
  let ?qty = "of_int (store_demand_mean * store_lead) :: real"
  define s' where "s' = (if ?qty \<le> hub_inventory s
      then s\<lparr>store_inventory := store_inventory s + ?qty,
             hub_inventory := hub_inventory s - ?qty, drawn := p1\<rparr>
      else s\<lparr>drawn := p1\<rparr>)"
  have r: "replenish_store cfg store_days lead_var g day s = Inr s'"
    using assms by (simp add: replenish_store_def s'_def Let_def)
  have tail: "store_inventory s9 = store_inventory s \<and> store_inventory s9 \<le> store_inventory s0"
    if n: "0 \<le> store_inventory s0" and f: "fulfil_demand g s0 = Inr s"
      and d: "day_step cfg store_days hub_days lead_var g day s0 = Inr s9"
      and h: "hub_inventory s < ?qty" for s0 s9
  proof -
    from d obtain s1 s2 s3 s4 where p: "fulfil_demand g s0 = Inr s1"
      "replenish_store cfg store_days lead_var g day s1 = Inr s2"
      "replenish_hub cfg hub_days lead_var g day s2 = Inr s3"
      "produce_bakery cfg hub_days lead_var g day s3 = Inr s4"
      "s9 = record_trace s4"
      by (rule day_step_phases)
    have "s1 = s" using p(1) f by simp
    then have "s2 = s'" using p(2) r by simp
    then have "store_inventory s2 = store_inventory s" using h by (simp add: s'_def)
    then have e: "store_inventory s9 = store_inventory s"
      using later_phases_keep(2) [OF p(3)] later_phases_keep(3) [OF p(4)] p(5)
      by (simp add: record_trace_def)
    have "store_inventory s = store_inventory s0
        - min (store_inventory s0) (daily_demand g (drawn s0))"
      using f by (auto simp: fulfil_demand_eq)
    moreover have "0 \<le> daily_demand g (drawn s0)" by (rule daily_demand_nonneg)
    ultimately have "store_inventory s \<le> store_inventory s0"
      using n by simp
    then show ?thesis using e by simp
  qed
  have a: "?qty \<le> hub_inventory s \<longrightarrow>
           hub_inventory s' = hub_inventory s - ?qty
           \<and> store_inventory s' = store_inventory s + ?qty"
    by (simp add: s'_def)
  have b: "hub_inventory s < ?qty \<longrightarrow>
           hub_inventory s' = hub_inventory s \<and> store_inventory s' = store_inventory s"
    by (simp add: s'_def)
  have c: "bakery_inventory s' = bakery_inventory s \<and> drawn s' = p1"
    by (simp add: s'_def)
  from r a b c tail show ?thesis by blast
qed

text \<open>A hub of 250 serves an order of 100; a hub of 50 leaves store and hub alone.\<close>

theorem store_replenishment_all_or_nothing_witness:
  "(7::int) \<noteq> 0 \<and> (14::int) mod 7 = 0
   \<and> leadtime_variation 0 (\<lambda>_. 0) (drawn (sim_with 0 250 0)) (lt_store cfg_tight) = Inr (1, 1)
   \<and> (\<exists>s'. replenish_store cfg_tight 7 0 (\<lambda>_. 0) 14 (sim_with 0 250 0) = Inr s'
          \<and> hub_inventory s' = 150 \<and> store_inventory s' = 100)
   \<and> leadtime_variation 0 (\<lambda>_. 0) (drawn (sim_with 30 50 0)) (lt_store cfg_tight) = Inr (1, 1)
   \<and> (\<exists>s'. replenish_store cfg_tight 7 0 (\<lambda>_. 0) 14 (sim_with 30 50 0) = Inr s'
          \<and> hub_inventory s' = 50 \<and> store_inventory s' = 30)"
proof -
  have h1: "(7::int) \<noteq> 0" and h2: "(14::int) mod 7 = 0" by simp_all
  have h3: "leadtime_variation 0 (\<lambda>_. 0) (drawn (sim_with 0 250 0)) (lt_store cfg_tight) = Inr (1, 1)"
    by (simp add: eval_defs)
  have h4: "leadtime_variation 0 (\<lambda>_. 0) (drawn (sim_with 30 50 0)) (lt_store cfg_tight) = Inr (1, 1)"
    by (simp add: eval_defs)
  have a: "\<exists>s'. replenish_store cfg_tight 7 0 (\<lambda>_. 0) 14 (sim_with 0 250 0) = Inr s'
          \<and> hub_inventory s' = 150 \<and> store_inventory s' = 100"
    using store_replenishment_all_or_nothing [OF h1 h2 h3, of 7]
    by (auto simp: sim_with_def init_sim_def store_demand_mean_def)
  have b: "\<exists>s'. replenish_store cfg_tight 7 0 (\<lambda>_. 0) 14 (sim_with 30 50 0) = Inr s'
          \<and> hub_inventory s' = 50 \<and> store_inventory s' = 30"
    using store_replenishment_all_or_nothing [OF h1 h2 h4, of 7]
    by (auto simp: sim_with_def init_sim_def store_demand_mean_def)
  from h1 h2 h3 h4 a b show ?thesis by blast
qed

subsection \<open>C2: demand fulfilment\<close>

text \<open>
  Claim C2. Every day the demand is drawn and floored at 0, it is added to
  \<open>total_demand\<close>, \<open>min store_inventory demand\<close> is added to \<open>fulfilled_demand\<close>,
  the day counts as a stockout day exactly when \<open>store_inventory < demand\<close> holds for the
  inventory before it is decremented (so a partly served day with stock on hand counts),
  and only then the store gives up what it fulfilled. The later phases of the day leave
  the three accumulators alone.
\<close>

theorem demand_fulfilment_step:
  "\<exists>s1. fulfil_demand g s = Inr s1
     \<and> daily_demand g (drawn s) = max 0 (of_int store_demand_mean + store_demand_std * g (drawn s))
     \<and> total_demand s1 = total_demand s + daily_demand g (drawn s)
     \<and> fulfilled_demand s1
         = fulfilled_demand s + min (store_inventory s) (daily_demand g (drawn s))
     \<and> stockout_days s1
         = (if store_inventory s < daily_demand g (drawn s) then stockout_days s + 1
            else stockout_days s)
     \<and> store_inventory s1
         = store_inventory s - min (store_inventory s) (daily_demand g (drawn s))
     \<and> (0 < store_inventory s \<and> store_inventory s < daily_demand g (drawn s) \<longrightarrow>
          stockout_days s1 = stockout_days s + 1
          \<and> fulfilled_demand s1 = fulfilled_demand s + store_inventory s
          \<and> store_inventory s1 = 0)
     \<and> (\<forall>s'. day_step cfg store_days hub_days lead_var g day s = Inr s' \<longrightarrow>
          total_demand s' = total_demand s1 \<and> fulfilled_demand s' = fulfilled_demand s1
          \<and> stockout_days s' = stockout_days s1)"
proof -
  let ?d = "daily_demand g (drawn s)"
  define s1 where "s1 = s\<lparr>total_demand := total_demand s + ?d,
            fulfilled_demand := fulfilled_demand s + min (store_inventory s) ?d,
            stockout_days := (if store_inventory s < ?d then stockout_days s + 1
                              else stockout_days s),
            store_inventory := store_inventory s - min (store_inventory s) ?d,
            drawn := Suc (drawn s)\<rparr>"
  have f: "fulfil_demand g s = Inr s1"
    by (simp add: fulfil_demand_eq s1_def)
  have d: "?d = max 0 (of_int store_demand_mean + store_demand_std * g (drawn s))"
    by (simp add: daily_demand_def)
  have acc: "total_demand s1 = total_demand s + ?d"
    "fulfilled_demand s1 = fulfilled_demand s + min (store_inventory s) ?d"
    "stockout_days s1 = (if store_inventory s < ?d then stockout_days s + 1 else stockout_days s)"
    "store_inventory s1 = store_inventory s - min (store_inventory s) ?d"
    by (simp_all add: s1_def)
  have partial: "0 < store_inventory s \<and> store_inventory s < ?d \<longrightarrow>
          stockout_days s1 = stockout_days s + 1
          \<and> fulfilled_demand s1 = fulfilled_demand s + store_inventory s
          \<and> store_inventory s1 = 0"
    by (simp add: s1_def)
  have later: "total_demand s' = total_demand s1 \<and> fulfilled_demand s' = fulfilled_demand s1
          \<and> stockout_days s' = stockout_days s1"
    if "day_step cfg store_days hub_days lead_var g day s = Inr s'" for s'
    using day_step_accumulators(1,2,3) [OF that] acc by simp
  from f d acc partial later show ?thesis by blast
qed

text \<open>A store of 50 against a demand of 100: a stockout day with 50 fulfilled.\<close>

theorem demand_fulfilment_step_witness:
  "\<exists>s1 s'. fulfil_demand (\<lambda>_. 0) (sim_with 50 0 0) = Inr s1
     \<and> daily_demand (\<lambda>_. 0) (drawn (sim_with 50 0 0)) = 100
     \<and> 0 < store_inventory (sim_with 50 0 0)
     \<and> store_inventory (sim_with 50 0 0) < daily_demand (\<lambda>_. 0) (drawn (sim_with 50 0 0))
     \<and> total_demand s1 = 100 \<and> fulfilled_demand s1 = 50 \<and> stockout_days s1 = 1
     \<and> store_inventory s1 = 0
     \<and> day_step cfg_tight 1 7 0 (\<lambda>_. 0) 0 (sim_with 50 0 0) = Inr s'
     \<and> total_demand s' = 100 \<and> fulfilled_demand s' = 50 \<and> stockout_days s' = 1"
proof -
  have d: "daily_demand (\<lambda>_. 0) (drawn (sim_with 50 0 0)) = 100"
    by (simp add: eval_defs)
  have v: "store_inventory (sim_with 50 0 0) = 50" "total_demand (sim_with 50 0 0) = 0"
    "fulfilled_demand (sim_with 50 0 0) = 0" "stockout_days (sim_with 50 0 0) = 0"
    by (simp_all add: sim_with_def init_sim_def)
  have "\<exists>s'. day_step cfg_tight 1 7 0 (\<lambda>_. 0) 0 (sim_with 50 0 0) = Inr s'"
    by (rule day_step_succeeds) (simp_all add: scales_ok_def)
  then obtain s' where s': "day_step cfg_tight 1 7 0 (\<lambda>_. 0) 0 (sim_with 50 0 0) = Inr s'"
    by blast
  from demand_fulfilment_step [of "\<lambda>_. 0" "sim_with 50 0 0" cfg_tight 1 7 0 0]
  obtain s1 where s1: "fulfil_demand (\<lambda>_. 0) (sim_with 50 0 0) = Inr s1"
    "total_demand s1 = 100" "fulfilled_demand s1 = 50" "stockout_days s1 = 1"
    "store_inventory s1 = 0"
    "total_demand s' = total_demand s1 \<and> fulfilled_demand s' = fulfilled_demand s1
          \<and> stockout_days s' = stockout_days s1"
    using s' by (auto simp: d v)
  with d v s' show ?thesis by auto
qed

subsection \<open>C3: hub replenishment and bakery production\<close>

text \<open>
  Claim C3. On a day with \<open>day mod hub_days = 0\<close> the hub step takes
  \<open>qty = store_demand_mean * hub_lead\<close> from the bakery and gives it to the hub with no
  check of what the bakery holds, so a bakery holding less than \<open>qty\<close> goes negative;
  the bakery step, under the same condition on the same \<open>hub_days\<close>, then adds
  \<open>store_demand_mean * bakery_lead\<close> to the bakery, again with no check. On every other
  day both steps do nothing.
\<close>

theorem hub_replenishment_and_bakery_production:
  assumes "hub_days \<noteq> 0"
    and "leadtime_variation lead_var g (drawn s) (lt_hub cfg) = Inr (hub_lead, p1)"
    and "leadtime_variation lead_var g p1 (lt_bakery cfg) = Inr (bakery_lead, p2)"
  shows "(day mod hub_days = 0 \<longrightarrow>
           (\<exists>s3 s4. replenish_hub cfg hub_days lead_var g day s = Inr s3
              \<and> bakery_inventory s3
                  = bakery_inventory s - of_int (store_demand_mean * hub_lead)
              \<and> hub_inventory s3 = hub_inventory s + of_int (store_demand_mean * hub_lead)
              \<and> store_inventory s3 = store_inventory s
              \<and> (bakery_inventory s < of_int (store_demand_mean * hub_lead)
                    \<longrightarrow> bakery_inventory s3 < 0)
              \<and> produce_bakery cfg hub_days lead_var g day s3 = Inr s4
              \<and> bakery_inventory s4
                  = bakery_inventory s3 + of_int (store_demand_mean * bakery_lead)
              \<and> hub_inventory s4 = hub_inventory s3
              \<and> store_inventory s4 = store_inventory s3))
       \<and> (day mod hub_days \<noteq> 0 \<longrightarrow>
            replenish_hub cfg hub_days lead_var g day s = Inr s
            \<and> produce_bakery cfg hub_days lead_var g day s = Inr s)"
proof -
  let ?qh = "of_int (store_demand_mean * hub_lead) :: real"
  let ?qb = "of_int (store_demand_mean * bakery_lead) :: real"
  define s3 where "s3 = s\<lparr>bakery_inventory := bakery_inventory s - ?qh,
      hub_inventory := hub_inventory s + ?qh, drawn := p1\<rparr>"
  define s4 where "s4 = s3\<lparr>bakery_inventory := bakery_inventory s3 + ?qb, drawn := p2\<rparr>"
  have d3: "drawn s3 = p1" by (simp add: s3_def)
  have h: "replenish_hub cfg hub_days lead_var g day s = Inr s3" if "day mod hub_days = 0"
    using assms(1,2) that by (simp add: replenish_hub_def s3_def Let_def)
  have b: "produce_bakery cfg hub_days lead_var g day s3 = Inr s4" if "day mod hub_days = 0"
    using assms(1,3) that by (simp add: produce_bakery_def s4_def d3)
  have v3: "bakery_inventory s3 = bakery_inventory s - ?qh"
    "hub_inventory s3 = hub_inventory s + ?qh" "store_inventory s3 = store_inventory s"
    "bakery_inventory s < ?qh \<longrightarrow> bakery_inventory s3 < 0"
    by (simp_all add: s3_def)
  have v4: "bakery_inventory s4 = bakery_inventory s3 + ?qb"
    "hub_inventory s4 = hub_inventory s3" "store_inventory s4 = store_inventory s3"
    by (simp_all add: s4_def)
  have off: "replenish_hub cfg hub_days lead_var g day s = Inr s
      \<and> produce_bakery cfg hub_days lead_var g day s = Inr s" if "day mod hub_days \<noteq> 0"
    using assms(1) that by (simp add: replenish_hub_def produce_bakery_def)
  show ?thesis
  proof (intro conjI impI)
    assume e: "day mod hub_days = 0"
    show "\<exists>s3 s4. replenish_hub cfg hub_days lead_var g day s = Inr s3
              \<and> bakery_inventory s3 = bakery_inventory s - ?qh
              \<and> hub_inventory s3 = hub_inventory s + ?qh
              \<and> store_inventory s3 = store_inventory s
              \<and> (bakery_inventory s < ?qh \<longrightarrow> bakery_inventory s3 < 0)
              \<and> produce_bakery cfg hub_days lead_var g day s3 = Inr s4
              \<and> bakery_inventory s4 = bakery_inventory s3 + ?qb
              \<and> hub_inventory s4 = hub_inventory s3
              \<and> store_inventory s4 = store_inventory s3"
      using h [OF e] b [OF e] v3 v4 by (intro exI [of _ s3] exI [of _ s4]) simp
  next
    assume "day mod hub_days \<noteq> 0"
    then show "replenish_hub cfg hub_days lead_var g day s = Inr s" using off by simp
  next
    assume "day mod hub_days \<noteq> 0"
    then show "produce_bakery cfg hub_days lead_var g day s = Inr s" using off by simp
  qed
qed

text \<open>An empty bakery is driven to -200 by the hub and back to -100 by production;
  on day 15 of a 7-day cycle nothing moves.\<close>

theorem hub_replenishment_and_bakery_production_witness:
  "(7::int) \<noteq> 0
   \<and> leadtime_variation 0 (\<lambda>_. 0) (drawn (sim_with 0 0 0)) (lt_hub cfg_tight) = Inr (2, 1)
   \<and> leadtime_variation 0 (\<lambda>_. 0) 1 (lt_bakery cfg_tight) = Inr (1, 2)
   \<and> (14::int) mod 7 = 0
   \<and> (\<exists>s3 s4. replenish_hub cfg_tight 7 0 (\<lambda>_. 0) 14 (sim_with 0 0 0) = Inr s3
         \<and> bakery_inventory s3 = - 200 \<and> hub_inventory s3 = 200
         \<and> produce_bakery cfg_tight 7 0 (\<lambda>_. 0) 14 s3 = Inr s4
         \<and> bakery_inventory s4 = - 100 \<and> hub_inventory s4 = 200)
   \<and> (15::int) mod 7 \<noteq> 0
   \<and> replenish_hub cfg_tight 7 0 (\<lambda>_. 0) 15 (sim_with 0 0 0) = Inr (sim_with 0 0 0)
   \<and> produce_bakery cfg_tight 7 0 (\<lambda>_. 0) 15 (sim_with 0 0 0) = Inr (sim_with 0 0 0)"
proof -
  have h1: "(7::int) \<noteq> 0" and m1: "(14::int) mod 7 = 0" and m2: "(15::int) mod 7 \<noteq> 0"
    by simp_all
  have h2: "leadtime_variation 0 (\<lambda>_. 0) (drawn (sim_with 0 0 0)) (lt_hub cfg_tight) = Inr (2, 1)"
    by (simp add: eval_defs)
  have h3: "leadtime_variation 0 (\<lambda>_. 0) 1 (lt_bakery cfg_tight) = Inr (1, 2)"
    by (simp add: eval_defs)
  have v: "bakery_inventory (sim_with 0 0 0) = 0" "hub_inventory (sim_with 0 0 0) = 0"
    by (simp_all add: sim_with_def init_sim_def)
  have a: "\<exists>s3 s4. replenish_hub cfg_tight 7 0 (\<lambda>_. 0) 14 (sim_with 0 0 0) = Inr s3
         \<and> bakery_inventory s3 = - 200 \<and> hub_inventory s3 = 200
         \<and> produce_bakery cfg_tight 7 0 (\<lambda>_. 0) 14 s3 = Inr s4
         \<and> bakery_inventory s4 = - 100 \<and> hub_inventory s4 = 200"
    using hub_replenishment_and_bakery_production [OF h1 h2 h3, of 14] m1
    by (auto simp: v store_demand_mean_def)
  have b: "replenish_hub cfg_tight 7 0 (\<lambda>_. 0) 15 (sim_with 0 0 0) = Inr (sim_with 0 0 0)
      \<and> produce_bakery cfg_tight 7 0 (\<lambda>_. 0) 15 (sim_with 0 0 0) = Inr (sim_with 0 0 0)"
    using hub_replenishment_and_bakery_production [OF h1 h2 h3, of 15] m2 by blast
  from h1 h2 h3 m1 m2 a b show ?thesis by blast
qed

subsection \<open>C4: the floor at 0 is applied to the traces only\<close>

text \<open>
  Claim C4. Recording appends \<open>max 0\<close> of each inventory to its trace and leaves the
  three inventories as they are; the state a day ends in, with inventories unfloored, is
  the state the next day starts from. So every entry of every trace is at least 0, each
  trace has one entry per simulated day, and a negative inventory is carried into the
  next day's arithmetic.
\<close>

theorem trace_floor_is_display_only:
  "store_inv (record_trace s) = store_inv s @ [max 0 (store_inventory s)]
   \<and> hub_inv (record_trace s) = hub_inv s @ [max 0 (hub_inventory s)]
   \<and> bakery_inv (record_trace s) = bakery_inv s @ [max 0 (bakery_inventory s)]
   \<and> store_inventory (record_trace s) = store_inventory s
   \<and> hub_inventory (record_trace s) = hub_inventory s
   \<and> bakery_inventory (record_trace s) = bakery_inventory s
   \<and> (\<forall>s'. day_step cfg sd hb lv g day s = Inr s' \<longrightarrow>
         store_inv s' = store_inv s @ [max 0 (store_inventory s')]
         \<and> hub_inv s' = hub_inv s @ [max 0 (hub_inventory s')]
         \<and> bakery_inv s' = bakery_inv s @ [max 0 (bakery_inventory s')]
         \<and> run_days cfg sd hb lv g (day # days) s = run_days cfg sd hb lv g days s')
   \<and> (\<forall>sk. state_at cfg sd hb lv g p k = Inr sk \<longrightarrow>
         list_all (\<lambda>x. 0 \<le> x) (store_inv sk) \<and> list_all (\<lambda>x. 0 \<le> x) (hub_inv sk)
         \<and> list_all (\<lambda>x. 0 \<le> x) (bakery_inv sk)
         \<and> length (store_inv sk) = k \<and> length (hub_inv sk) = k
         \<and> length (bakery_inv sk) = k)"
proof -
  have a: "store_inv (record_trace s) = store_inv s @ [max 0 (store_inventory s)]
   \<and> hub_inv (record_trace s) = hub_inv s @ [max 0 (hub_inventory s)]
   \<and> bakery_inv (record_trace s) = bakery_inv s @ [max 0 (bakery_inventory s)]
   \<and> store_inventory (record_trace s) = store_inventory s
   \<and> hub_inventory (record_trace s) = hub_inventory s
   \<and> bakery_inventory (record_trace s) = bakery_inventory s"
    by (simp add: record_trace_def)
  have b: "store_inv s' = store_inv s @ [max 0 (store_inventory s')]
         \<and> hub_inv s' = hub_inv s @ [max 0 (hub_inventory s')]
         \<and> bakery_inv s' = bakery_inv s @ [max 0 (bakery_inventory s')]
         \<and> run_days cfg sd hb lv g (day # days) s = run_days cfg sd hb lv g days s'"
    if "day_step cfg sd hb lv g day s = Inr s'" for s'
    using day_step_traces [OF that] that by simp
  have c: "list_all (\<lambda>x. 0 \<le> x) (store_inv sk) \<and> list_all (\<lambda>x. 0 \<le> x) (hub_inv sk)
         \<and> list_all (\<lambda>x. 0 \<le> x) (bakery_inv sk)
         \<and> length (store_inv sk) = k \<and> length (hub_inv sk) = k
         \<and> length (bakery_inv sk) = k"
    if "state_at cfg sd hb lv g p k = Inr sk" for sk
    using state_at_traces_nonneg [OF that] state_at_lengths [OF that] by simp
  from a b c show ?thesis by blast
qed

text \<open>The bakery stands at -100 after day 0 and at -200 after day 1, recorded as 0
  both times.\<close>

theorem trace_floor_is_display_only_witness:
  "\<exists>s1 s2. state_at cfg_tight 1 1 0 (\<lambda>_. 0) 0 1 = Inr s1
     \<and> bakery_inventory s1 = - 100 \<and> bakery_inv s1 = [0]
     \<and> day_step cfg_tight 1 1 0 (\<lambda>_. 0) 1 s1 = Inr s2
     \<and> state_at cfg_tight 1 1 0 (\<lambda>_. 0) 0 2 = Inr s2
     \<and> bakery_inventory s2 = - 200 \<and> bakery_inv s2 = [0, 0]
     \<and> bakery_inv s2 = bakery_inv s1 @ [max 0 (bakery_inventory s2)]
     \<and> list_all (\<lambda>x. 0 \<le> x) (bakery_inv s2) \<and> length (bakery_inv s2) = 2"
proof -
  let ?s1 = "\<lparr>store_inv = [0], hub_inv = [200], bakery_inv = [0],
          store_inventory = 0, hub_inventory = 200, bakery_inventory = - 100,
          total_demand = 100, fulfilled_demand = 0, stockout_days = 1, drawn = 4\<rparr>"
  let ?s2 = "\<lparr>store_inv = [0, 100], hub_inv = [200, 300], bakery_inv = [0, 0],
          store_inventory = 100, hub_inventory = 300, bakery_inventory = - 200,
          total_demand = 200, fulfilled_demand = 0, stockout_days = 2, drawn = 8\<rparr>"
  have a: "state_at cfg_tight 1 1 0 (\<lambda>_. 0) 0 1 = Inr ?s1" by (rule tight_two_days)
  have b: "state_at cfg_tight 1 1 0 (\<lambda>_. 0) 0 2 = Inr ?s2" by (rule tight_two_days)
  have two: "(2::nat) = Suc 1" by simp
  have c: "day_step cfg_tight 1 1 0 (\<lambda>_. 0) 1 ?s1 = Inr ?s2"
    using b unfolding two state_at_Suc a by simp
  have "bakery_inv ?s2 = bakery_inv ?s1 @ [max 0 (bakery_inventory ?s2)]
     \<and> list_all (\<lambda>x. 0 \<le> x) (bakery_inv ?s2) \<and> length (bakery_inv ?s2) = 2"
    using trace_floor_is_display_only [of ?s1 cfg_tight 1 1 0 "\<lambda>_. 0" 1 "[]" 0 2] b c
    by blast
  with a b c show ?thesis by (intro exI [of _ ?s1] exI [of _ ?s2]) simp
qed

subsection \<open>C5: lead-time sampling\<close>

text \<open>
  Claim C5. A lead-time sample is \<open>max 1 (round (Normal base (base * lead_var)))\<close>: an
  integer that is at least 1, computed from one draw of the generator, which it consumes.
  With \<open>lead_var = 0\<close> the sample is the base lead time, for every base of at least 1.
  On a day on which store and hub are both due, the three replenishment points use three
  different draws, the ones after the demand draw, and the day consumes four draws.
  (That the draws are independent is a property of the generator, not of the program; what
  is proved is that no draw is used twice.)
\<close>

theorem lead_time_sampling:
  "(\<forall>L p'. leadtime_variation lead_var g p base = Inr (L, p') \<longrightarrow>
       L = max 1 (np_round (of_int base + of_int base * lead_var * g p))
       \<and> L = sampled_lead lead_var base (g p) \<and> 1 \<le> L \<and> p' = Suc p)
   \<and> (0 \<le> of_int base * lead_var \<longrightarrow>
        leadtime_variation lead_var g p base = Inr (sampled_lead lead_var base (g p), Suc p))
   \<and> (1 \<le> base \<longrightarrow> leadtime_variation 0 g p base = Inr (base, Suc p))
   \<and> (\<forall>s'. day_step cfg sd hb lead_var g day s = Inr s' \<and> day mod sd = 0 \<and> day mod hb = 0
        \<longrightarrow> drawn s' = drawn s + 4
          \<and> store_inventory s'
              = store_inventory s - min (store_inventory s) (daily_demand g (drawn s))
                + (if of_int (store_demand_mean
                         * sampled_lead lead_var (lt_store cfg) (g (drawn s + 1)))
                       \<le> hub_inventory s
                   then of_int (store_demand_mean
                         * sampled_lead lead_var (lt_store cfg) (g (drawn s + 1)))
                   else 0)
          \<and> store_inventory s' + hub_inventory s'
              = store_inventory s - min (store_inventory s) (daily_demand g (drawn s))
                + hub_inventory s
                + of_int (store_demand_mean
                         * sampled_lead lead_var (lt_hub cfg) (g (drawn s + 2)))
          \<and> bakery_inventory s'
              = bakery_inventory s
                - of_int (store_demand_mean
                         * sampled_lead lead_var (lt_hub cfg) (g (drawn s + 2)))
                + of_int (store_demand_mean
                         * sampled_lead lead_var (lt_bakery cfg) (g (drawn s + 3))))"
  (is "?A \<and> ?B \<and> ?C \<and> (\<forall>s'. ?H s' \<longrightarrow> ?D s')")
proof -
  have a: ?A
  proof (intro allI impI)
    fix L p'
    assume h: "leadtime_variation lead_var g p base = Inr (L, p')"
    show "L = max 1 (np_round (of_int base + of_int base * lead_var * g p))
       \<and> L = sampled_lead lead_var base (g p) \<and> 1 \<le> L \<and> p' = Suc p"
      using leadtime_variation_Inr(1,2) [OF h] sampled_lead_ge_1 [of lead_var base "g p"]
      by (simp add: sampled_lead_def)
  qed
  have b: ?B
    by (simp add: leadtime_variation_eq)
  have c: ?C
    using leadtime_variation_eq [of base 0 g p] by (simp add: sampled_lead_zero_var)
  have d: "\<forall>s'. ?H s' \<longrightarrow> ?D s'"
  proof (intro allI impI)
    fix s'
    assume h: "?H s'"
    then have st: "day_step cfg sd hb lead_var g day s = Inr s'" and e1: "day mod sd = 0"
      and e2: "day mod hb = 0"
      by simp_all
    from st obtain s1 s2 s3 s4 where p: "fulfil_demand g s = Inr s1"
      "replenish_store cfg sd lead_var g day s1 = Inr s2"
      "replenish_hub cfg hb lead_var g day s2 = Inr s3"
      "produce_bakery cfg hb lead_var g day s3 = Inr s4"
      "s' = record_trace s4"
      by (rule day_step_phases)
    have s1: "s1 = s\<lparr>total_demand := total_demand s + daily_demand g (drawn s),
            fulfilled_demand := fulfilled_demand s
              + min (store_inventory s) (daily_demand g (drawn s)),
            stockout_days := (if store_inventory s < daily_demand g (drawn s)
                              then stockout_days s + 1 else stockout_days s),
            store_inventory := store_inventory s
              - min (store_inventory s) (daily_demand g (drawn s)),
            drawn := Suc (drawn s)\<rparr>"
      using p(1) by (simp add: fulfil_demand_eq)
    have v1: "drawn s1 = drawn s + 1" "hub_inventory s1 = hub_inventory s"
      "bakery_inventory s1 = bakery_inventory s"
      "store_inventory s1
         = store_inventory s - min (store_inventory s) (daily_demand g (drawn s))"
      by (simp_all add: s1)
    have v2: "drawn s2 = drawn s + 2" "bakery_inventory s2 = bakery_inventory s"
      "store_inventory s2 = store_inventory s1
         + (if of_int (store_demand_mean
                  * sampled_lead lead_var (lt_store cfg) (g (drawn s + 1))) \<le> hub_inventory s
            then of_int (store_demand_mean
                  * sampled_lead lead_var (lt_store cfg) (g (drawn s + 1))) else 0)"
      "store_inventory s2 + hub_inventory s2 = store_inventory s1 + hub_inventory s"
      using replenish_store_Inr(2) [OF p(2)] e1 v1(1,2,3) by simp_all
    have v3: "drawn s3 = drawn s + 3" "store_inventory s3 = store_inventory s2"
      "hub_inventory s3 = hub_inventory s2
         + of_int (store_demand_mean * sampled_lead lead_var (lt_hub cfg) (g (drawn s + 2)))"
      "bakery_inventory s3 = bakery_inventory s
         - of_int (store_demand_mean * sampled_lead lead_var (lt_hub cfg) (g (drawn s + 2)))"
      using replenish_hub_Inr(2) [OF p(3)] e2 v2(1,2) by simp_all
    have v4: "drawn s4 = drawn s + 4" "store_inventory s4 = store_inventory s3"
      "hub_inventory s4 = hub_inventory s3"
      "bakery_inventory s4 = bakery_inventory s3
         + of_int (store_demand_mean * sampled_lead lead_var (lt_bakery cfg) (g (drawn s + 3)))"
      using produce_bakery_Inr(2) [OF p(4)] e2 v3(1) by simp_all
    have v5: "drawn s' = drawn s4" "store_inventory s' = store_inventory s4"
      "hub_inventory s' = hub_inventory s4" "bakery_inventory s' = bakery_inventory s4"
      using p(5) by (simp_all add: record_trace_def)
    have w1: "drawn s' = drawn s + 4" using v5(1) v4(1) by simp
    have w2: "store_inventory s' = store_inventory s
        - min (store_inventory s) (daily_demand g (drawn s))
        + (if of_int (store_demand_mean
                  * sampled_lead lead_var (lt_store cfg) (g (drawn s + 1))) \<le> hub_inventory s
            then of_int (store_demand_mean
                  * sampled_lead lead_var (lt_store cfg) (g (drawn s + 1))) else 0)"
      using v5(2) v4(2) v3(2) v2(3) v1(4) by simp
    have w3: "store_inventory s' + hub_inventory s'
        = store_inventory s - min (store_inventory s) (daily_demand g (drawn s))
          + hub_inventory s
          + of_int (store_demand_mean * sampled_lead lead_var (lt_hub cfg) (g (drawn s + 2)))"
      using v5(2,3) v4(2,3) v3(2,3) v2(4) v1(4) by linarith
    have w4: "bakery_inventory s' = bakery_inventory s
        - of_int (store_demand_mean * sampled_lead lead_var (lt_hub cfg) (g (drawn s + 2)))
        + of_int (store_demand_mean * sampled_lead lead_var (lt_bakery cfg) (g (drawn s + 3)))"
      using v5(4) v4(4) v3(4) by linarith
    show "?D s'"
      by (rule conjI [OF w1 conjI [OF w2 conjI [OF w3 w4]]])
  qed
  show ?thesis
    by (rule conjI [OF a conjI [OF b conjI [OF c d]]])
qed

text \<open>Samples of 4 (from 4.2), of 1 (floored from -1) and of the base 3 at no
  variability; and a day whose three points draw 5, -2 and 1 and sample 2, 1 and 4.\<close>

theorem lead_time_sampling_witness:
  "leadtime_variation (1 / 5) (\<lambda>_. 2) 0 3 = Inr (4, 1)
   \<and> leadtime_variation (1 / 5) (\<lambda>_. - 10) 0 1 = Inr (1, 1)
   \<and> (1::int) \<le> 3 \<and> leadtime_variation 0 (\<lambda>_. 2) 0 3 = Inr (3, 1)
   \<and> (0::int) mod 1 = 0 \<and> (0::int) mod 7 = 0
   \<and> (\<exists>s'. day_step cfg_default 1 7 (1 / 5)
            (\<lambda>i. if i = 1 then 5 else if i = 2 then - 2 else if i = 3 then 1 else 0)
            0 (sim_with 0 500 0) = Inr s'
          \<and> drawn s' = 4 \<and> store_inventory s' = 200 \<and> hub_inventory s' = 400
          \<and> bakery_inventory s' = 300)"
proof -
  let ?g = "\<lambda>i::nat. if i = 1 then 5 else if i = 2 then - 2 else if i = 3 then 1 else (0::real)"
  have l: "sampled_lead (1 / 5) 1 5 = 2" "sampled_lead (1 / 5) 2 (- 2) = 1"
    "sampled_lead (1 / 5) 3 1 = 4" "sampled_lead (1 / 5) 3 2 = 4"
    "sampled_lead (1 / 5) 1 (- 10) = 1"
    by (simp_all add: sampled_lead_def np_round_def)
  have "0 \<le> real_of_int 3 * (1 / 5) \<longrightarrow>
      leadtime_variation (1 / 5) (\<lambda>_. 2) 0 3 = Inr (sampled_lead (1 / 5) 3 2, Suc 0)"
    by (rule lead_time_sampling [of "1 / 5" "\<lambda>_. 2" 0 3, THEN conjunct2, THEN conjunct1])
  then have a: "leadtime_variation (1 / 5) (\<lambda>_. 2) 0 3 = Inr (4, 1)"
    by (simp add: l)
  have "0 \<le> real_of_int 1 * (1 / 5) \<longrightarrow>
      leadtime_variation (1 / 5) (\<lambda>_. - 10) 0 1 = Inr (sampled_lead (1 / 5) 1 (- 10), Suc 0)"
    by (rule lead_time_sampling [of "1 / 5" "\<lambda>_. - 10" 0 1, THEN conjunct2, THEN conjunct1])
  then have b: "leadtime_variation (1 / 5) (\<lambda>_. - 10) 0 1 = Inr (1, 1)"
    by (simp add: l)
  have "(1::int) \<le> 3 \<longrightarrow> leadtime_variation 0 (\<lambda>_. 2) 0 3 = Inr (3, Suc 0)"
    by (rule lead_time_sampling [of 0 "\<lambda>_. 2" 0 3,
          THEN conjunct2, THEN conjunct2, THEN conjunct1])
  then have c: "leadtime_variation 0 (\<lambda>_. 2) 0 3 = Inr (3, 1)"
    by simp
  have "\<exists>s'. day_step cfg_default 1 7 (1 / 5) ?g 0 (sim_with 0 500 0) = Inr s'"
    by (rule day_step_succeeds) (simp_all add: scales_ok_def cfg_default_def)
  then obtain s' where s': "day_step cfg_default 1 7 (1 / 5) ?g 0 (sim_with 0 500 0) = Inr s'"
    by blast
  have v: "drawn (sim_with 0 500 0) = 0" "store_inventory (sim_with 0 500 0) = 0"
    "hub_inventory (sim_with 0 500 0) = 500" "bakery_inventory (sim_with 0 500 0) = 0"
    "lt_store cfg_default = 1" "lt_hub cfg_default = 2" "lt_bakery cfg_default = 3"
    by (simp_all add: sim_with_def init_sim_def cfg_default_def)
  have m: "(0::int) mod 1 = 0" "(0::int) mod 7 = 0" by simp_all
  have "\<forall>s'. day_step cfg_default 1 7 (1 / 5) ?g 0 (sim_with 0 500 0) = Inr s'
          \<and> (0::int) mod 1 = 0 \<and> (0::int) mod 7 = 0
        \<longrightarrow> drawn s' = drawn (sim_with 0 500 0) + 4
          \<and> store_inventory s'
              = store_inventory (sim_with 0 500 0)
                - min (store_inventory (sim_with 0 500 0))
                    (daily_demand ?g (drawn (sim_with 0 500 0)))
                + (if of_int (store_demand_mean
                         * sampled_lead (1 / 5) (lt_store cfg_default)
                             (?g (drawn (sim_with 0 500 0) + 1)))
                       \<le> hub_inventory (sim_with 0 500 0)
                   then of_int (store_demand_mean
                         * sampled_lead (1 / 5) (lt_store cfg_default)
                             (?g (drawn (sim_with 0 500 0) + 1)))
                   else 0)
          \<and> store_inventory s' + hub_inventory s'
              = store_inventory (sim_with 0 500 0)
                - min (store_inventory (sim_with 0 500 0))
                    (daily_demand ?g (drawn (sim_with 0 500 0)))
                + hub_inventory (sim_with 0 500 0)
                + of_int (store_demand_mean
                         * sampled_lead (1 / 5) (lt_hub cfg_default)
                             (?g (drawn (sim_with 0 500 0) + 2)))
          \<and> bakery_inventory s'
              = bakery_inventory (sim_with 0 500 0)
                - of_int (store_demand_mean
                         * sampled_lead (1 / 5) (lt_hub cfg_default)
                             (?g (drawn (sim_with 0 500 0) + 2)))
                + of_int (store_demand_mean
                         * sampled_lead (1 / 5) (lt_bakery cfg_default)
                             (?g (drawn (sim_with 0 500 0) + 3)))"
    by (rule lead_time_sampling [of "1 / 5" ?g 0 1 cfg_default 1 7 0 "sim_with 0 500 0",
          THEN conjunct2, THEN conjunct2, THEN conjunct2])
  then have "drawn s' = 4 \<and> store_inventory s' = 200 \<and> hub_inventory s' = 400
          \<and> bakery_inventory s' = 300"
    using s' by (simp add: v l daily_demand_def store_demand_std_def store_demand_mean_def)
  with a b c s' show ?thesis by auto
qed

subsection \<open>C6: bounds of fill rate and stockout risk\<close>

text \<open>
  Claim C6. Whenever the engine returns, the total demand is positive, the fill rate lies
  between 0 and 1, and the stockout risk lies between 0 and 1. The risk is the number of
  days on which \<open>store_inventory < demand\<close> held at the check before fulfilment, over
  \<open>n_periods\<close>; so a risk of 0 means that it held on no day.
\<close>

theorem fill_rate_and_stockout_risk_bounds:
  assumes "simulate_inventory_cost cfg sd hb lv g p
     = Inr ((store_val, hub_val, bakery_val, service_level, stockout_risk, td), p')"
  shows "0 < td \<and> 0 \<le> service_level \<and> service_level \<le> 1
     \<and> 0 \<le> stockout_risk \<and> stockout_risk \<le> 1
     \<and> stockout_risk
         = real (length (filter (stockout_on_day cfg sd hb lv g p) [0..<n_periods]))
           / real n_periods
     \<and> (stockout_risk = 0 \<longrightarrow> (\<forall>k<n_periods. \<not> stockout_on_day cfg sd hb lv g p k))"
proof -
  from assms obtain s where l: "simulate_loop cfg sd hb lv g p = Inr s"
    and nz: "total_demand s \<noteq> 0"
    and m: "(store_val, hub_val, bakery_val, service_level, stockout_risk, td)
       = (np_mean (store_inv s) * of_int (h_store cfg),
              np_mean (hub_inv s) * of_int (h_hub cfg),
              np_mean (bakery_inv s) * of_int (h_bakery cfg),
              fulfilled_demand s / total_demand s,
              real (stockout_days s) / real n_periods,
              total_demand s)"
    by (rule simulate_Inr)
  have s: "state_at cfg sd hb lv g p n_periods = Inr s"
    using l by (simp add: simulate_loop_state_at)
  have lev: "service_level = fulfilled_demand s / total_demand s"
    and risk: "stockout_risk = real (stockout_days s) / real n_periods"
    and td: "td = total_demand s"
    using m by simp_all
  have pos: "0 < total_demand s"
    using total_demand_nonneg [OF s] nz by simp
  have f: "0 \<le> fulfilled_demand s" "fulfilled_demand s \<le> total_demand s"
    using state_at_fill [OF s] by simp_all
  have c: "stockout_days s = length (filter (stockout_on_day cfg sd hb lv g p) [0..<n_periods])"
    by (rule stockout_count [OF s])
  have le: "stockout_days s \<le> n_periods"
    using length_filter_le [of "stockout_on_day cfg sd hb lv g p" "[0..<n_periods]"]
    by (simp add: c)
  have n: "0 < n_periods" by (simp add: n_periods_def)
  have a1: "0 < td" using td pos by simp
  have a2: "0 \<le> service_level" using lev f(1) pos by simp
  have a3: "service_level \<le> 1" using lev f(2) pos by simp
  have a4: "0 \<le> stockout_risk" using risk by simp
  have a5: "stockout_risk \<le> 1" using risk le n by simp
  have a6: "stockout_risk
         = real (length (filter (stockout_on_day cfg sd hb lv g p) [0..<n_periods]))
           / real n_periods"
    using risk c by simp
  have a7: "stockout_risk = 0 \<longrightarrow> (\<forall>k<n_periods. \<not> stockout_on_day cfg sd hb lv g p k)"
  proof
    assume "stockout_risk = 0"
    then have "stockout_days s = 0" using risk n by simp
    then have "filter (stockout_on_day cfg sd hb lv g p) [0..<n_periods] = []"
      using c by simp
    then show "\<forall>k<n_periods. \<not> stockout_on_day cfg sd hb lv g p k"
      by (simp add: filter_empty_conv)
  qed
  show ?thesis
    by (rule conjI [OF a1 conjI [OF a2 conjI [OF a3 conjI [OF a4 conjI [OF a5 conjI [OF a6 a7]]]]]])
qed

text \<open>The reference run: fill rate 1, risk 0, and no stockout on the first or the
  last day.\<close>

theorem fill_rate_and_stockout_risk_bounds_witness:
  "simulate_inventory_cost cfg_ref 1 1 (1 / 5) g_ref 0
     = Inr ((145600 / 73, 1800, 0, 1, 0, 36300), 1460)
   \<and> (0::real) < 36300 \<and> (0::real) \<le> 1 \<and> (1::real) \<le> 1 \<and> (0::real) \<le> 0
   \<and> length (filter (stockout_on_day cfg_ref 1 1 (1 / 5) g_ref 0) [0..<n_periods]) = 0
   \<and> \<not> stockout_on_day cfg_ref 1 1 (1 / 5) g_ref 0 0
   \<and> \<not> stockout_on_day cfg_ref 1 1 (1 / 5) g_ref 0 364"
proof -
  note t = fill_rate_and_stockout_risk_bounds [OF ref_result]
  have r: "(0::real) = real (length (filter (stockout_on_day cfg_ref 1 1 (1 / 5) g_ref 0)
      [0..<n_periods])) / real n_periods"
    using t by blast
  have a: "length (filter (stockout_on_day cfg_ref 1 1 (1 / 5) g_ref 0) [0..<n_periods]) = 0"
    using r by (simp add: n_periods_def)
  have b: "\<forall>k<n_periods. \<not> stockout_on_day cfg_ref 1 1 (1 / 5) g_ref 0 k"
    using t by blast
  have "\<not> stockout_on_day cfg_ref 1 1 (1 / 5) g_ref 0 0"
    "\<not> stockout_on_day cfg_ref 1 1 (1 / 5) g_ref 0 364"
    using b by (simp_all add: n_periods_def)
  with ref_result a show ?thesis by simp
qed

subsection \<open>C7: the run is determined by the draws\<close>

text \<open>
  Claim C7. The engine is a function of its parameters and of the draws it consumes,
  which are at most four a day from the position it starts at. Two generators that agree
  on those \<open>4 * n_periods\<close> draws give the same final state, traces included, and the
  same result (or the same error); each of the three traces has \<open>n_periods\<close> entries.
\<close>

theorem simulation_deterministic_in_draws:
  assumes "same_draws g g' p (4 * n_periods)"
  shows "simulate_loop cfg sd hb lv g p = simulate_loop cfg sd hb lv g' p
     \<and> simulate_inventory_cost cfg sd hb lv g p = simulate_inventory_cost cfg sd hb lv g' p
     \<and> (\<forall>s. simulate_loop cfg sd hb lv g p = Inr s \<longrightarrow>
           length (store_inv s) = n_periods \<and> length (hub_inv s) = n_periods
           \<and> length (bakery_inv s) = n_periods \<and> drawn s \<le> p + 4 * n_periods)"
proof -
  have a: "simulate_loop cfg sd hb lv g p = simulate_loop cfg sd hb lv g' p"
    unfolding simulate_loop_state_at using assms by (rule state_at_same_draws)
  have b: "simulate_inventory_cost cfg sd hb lv g p = simulate_inventory_cost cfg sd hb lv g' p"
    by (simp add: simulate_inventory_cost_def a)
  have c: "\<forall>s. simulate_loop cfg sd hb lv g p = Inr s \<longrightarrow>
           length (store_inv s) = n_periods \<and> length (hub_inv s) = n_periods
           \<and> length (bakery_inv s) = n_periods \<and> drawn s \<le> p + 4 * n_periods"
    unfolding simulate_loop_state_at
    using state_at_lengths [of cfg sd hb lv g p n_periods]
      state_at_drawn [of cfg sd hb lv g p n_periods] by blast
  show ?thesis
    by (rule conjI [OF a conjI [OF b c]])
qed

text \<open>A generator that differs from the reference one only after draw 1460 gives
  the reference run.\<close>

theorem simulation_deterministic_in_draws_witness:
  "same_draws g_ref (\<lambda>i. if i < 1460 then g_ref i else 7) 0 (4 * n_periods)
   \<and> simulate_inventory_cost cfg_ref 1 1 (1 / 5) (\<lambda>i. if i < 1460 then g_ref i else 7) 0
       = Inr ((145600 / 73, 1800, 0, 1, 0, 36300), 1460)
   \<and> simulate_loop cfg_ref 1 1 (1 / 5) (\<lambda>i. if i < 1460 then g_ref i else 7) 0 =
     Inr \<lparr>store_inv = 0 # replicate 364 100, hub_inv = replicate 365 100,
          bakery_inv = replicate 365 0,
          store_inventory = 100, hub_inventory = 100, bakery_inventory = 0,
          total_demand = 36300, fulfilled_demand = 36300,
          stockout_days = 0, drawn = 1460\<rparr>"
proof -
  have h: "same_draws g_ref (\<lambda>i. if i < 1460 then g_ref i else 7) 0 (4 * n_periods)"
    by (simp add: same_draws_def n_periods_def)
  note t = simulation_deterministic_in_draws [OF h, of cfg_ref 1 1 "1 / 5"]
  have a: "simulate_inventory_cost cfg_ref 1 1 (1 / 5) (\<lambda>i. if i < 1460 then g_ref i else 7) 0
       = Inr ((145600 / 73, 1800, 0, 1, 0, 36300), 1460)"
    using ref_result unfolding t [THEN conjunct2, THEN conjunct1] .
  have b: "simulate_loop cfg_ref 1 1 (1 / 5) (\<lambda>i. if i < 1460 then g_ref i else 7) 0 =
     Inr \<lparr>store_inv = 0 # replicate 364 100, hub_inv = replicate 365 100,
          bakery_inv = replicate 365 0,
          store_inventory = 100, hub_inventory = 100, bakery_inventory = 0,
          total_demand = 36300, fulfilled_demand = 36300,
          stockout_days = 0, drawn = 1460\<rparr>"
    using ref_final_state unfolding t [THEN conjunct1] .
  from h a b show ?thesis by blast
qed

subsection \<open>C8: the division of the fill rate\<close>

text \<open>
  Claim C8 says that the division \<open>fulfilled_demand / total_demand\<close> fails only when the
  total demand is 0, that the engine returns a fill rate whenever some day's demand is
  positive, and that a guard covers the case of total demand 0. The engine has no such
  guard: with every draw at -5 each day's demand is 0, the loop completes with total
  demand 0, and the engine raises \<^verbatim>\<open>ZeroDivisionError\<close>.
\<close>

theorem zero_total_demand_raises:
  "\<exists>s. simulate_loop cfg_default 1 7 (1 / 5) (\<lambda>_. - 5) 0 = Inr s \<and> total_demand s = 0
     \<and> simulate_inventory_cost cfg_default 1 7 (1 / 5) (\<lambda>_. - 5) 0 = Inl ZeroDivisionError"
proof -
  have ok: "scales_ok cfg_default (1 / 5)"
    by (simp add: scales_ok_def cfg_default_def)
  have z: "\<And>i. daily_demand (\<lambda>_. - 5) i = 0"
    by (simp add: daily_demand_def store_demand_mean_def store_demand_std_def)
  have "\<exists>s. state_at cfg_default 1 7 (1 / 5) (\<lambda>_. - 5) 0 n_periods = Inr s"
    by (rule state_at_succeeds [OF _ _ ok]) simp_all
  then obtain s where s: "state_at cfg_default 1 7 (1 / 5) (\<lambda>_. - 5) 0 n_periods = Inr s"
    by blast
  have "\<forall>i<n_periods. demand_on_day cfg_default 1 7 (1 / 5) (\<lambda>_. - 5) 0 i = 0"
    by (simp add: demand_on_day_def z split: sum.splits)
  then have "total_demand s = 0" using total_demand_zero_iff [OF s] by simp
  moreover have "simulate_inventory_cost cfg_default 1 7 (1 / 5) (\<lambda>_. - 5) 0
      = Inl ZeroDivisionError"
    by (rule zero_demand_raises) (simp_all add: ok z)
  ultimately show ?thesis using s by (simp add: simulate_loop_state_at)
qed

text \<open>
  Claim C8, amended. For nonzero intervals and lead-time scales that are not negative the
  loop always completes. The total demand is 0 exactly when every day's demand is 0; the
  engine then raises \<^verbatim>\<open>ZeroDivisionError\<close> at the division, and that is the only way
  it fails. When some day's demand is positive the total demand is positive and the
  engine returns \<open>fulfilled_demand / total_demand\<close> as its fill rate.
\<close>

theorem fill_rate_division:
  assumes "sd \<noteq> 0" and "hb \<noteq> 0" and "scales_ok cfg lv"
  shows "\<exists>s. simulate_loop cfg sd hb lv g p = Inr s
      \<and> (total_demand s = 0 \<longleftrightarrow> (\<forall>k<n_periods. demand_on_day cfg sd hb lv g p k = 0))
      \<and> (total_demand s = 0 \<longrightarrow>
           simulate_inventory_cost cfg sd hb lv g p = Inl ZeroDivisionError)
      \<and> (\<forall>e. simulate_inventory_cost cfg sd hb lv g p = Inl e \<longrightarrow>
           e = ZeroDivisionError \<and> total_demand s = 0)
      \<and> ((\<exists>k<n_periods. 0 < demand_on_day cfg sd hb lv g p k) \<longrightarrow>
           0 < total_demand s
           \<and> (\<exists>store_val hub_val bakery_val stockout_risk.
                simulate_inventory_cost cfg sd hb lv g p
                  = Inr ((store_val, hub_val, bakery_val,
                          fulfilled_demand s / total_demand s, stockout_risk,
                          total_demand s), drawn s)))"
proof -
  obtain s where s: "state_at cfg sd hb lv g p n_periods = Inr s"
    using state_at_succeeds [OF assms] by blast
  then have l: "simulate_loop cfg sd hb lv g p = Inr s"
    by (simp add: simulate_loop_state_at)
  note r = simulate_of_loop [OF l]
  have a: "total_demand s = 0 \<longleftrightarrow> (\<forall>k<n_periods. demand_on_day cfg sd hb lv g p k = 0)"
    by (rule total_demand_zero_iff [OF s])
  have b: "total_demand s = 0 \<longrightarrow>
           simulate_inventory_cost cfg sd hb lv g p = Inl ZeroDivisionError"
    using r by simp
  have c: "\<forall>e. simulate_inventory_cost cfg sd hb lv g p = Inl e \<longrightarrow>
           e = ZeroDivisionError \<and> total_demand s = 0"
    using r by (simp split: if_splits)
  have d: "(\<exists>k<n_periods. 0 < demand_on_day cfg sd hb lv g p k) \<longrightarrow>
           0 < total_demand s
           \<and> (\<exists>store_val hub_val bakery_val stockout_risk.
                simulate_inventory_cost cfg sd hb lv g p
                  = Inr ((store_val, hub_val, bakery_val,
                          fulfilled_demand s / total_demand s, stockout_risk,
                          total_demand s), drawn s))"
  proof
    assume "\<exists>k<n_periods. 0 < demand_on_day cfg sd hb lv g p k"
    then have "total_demand s \<noteq> 0" using a by fastforce
    then have "0 < total_demand s" using total_demand_nonneg [OF s] by simp
    then show "0 < total_demand s
           \<and> (\<exists>store_val hub_val bakery_val stockout_risk.
                simulate_inventory_cost cfg sd hb lv g p
                  = Inr ((store_val, hub_val, bakery_val,
                          fulfilled_demand s / total_demand s, stockout_risk,
                          total_demand s), drawn s))"
      using r by simp
  qed
  show ?thesis
    by (rule exI [of _ s]) (rule conjI [OF l conjI [OF a conjI [OF b conjI [OF c d]]]])
qed

text \<open>The reference run has a demand of 100 on day 2 and returns.\<close>

theorem fill_rate_division_witness:
  "(1::int) \<noteq> 0 \<and> scales_ok cfg_ref (1 / 5)
   \<and> 0 < demand_on_day cfg_ref 1 1 (1 / 5) g_ref 0 2
   \<and> (\<exists>s. simulate_loop cfg_ref 1 1 (1 / 5) g_ref 0 = Inr s \<and> total_demand s = 36300
         \<and> simulate_inventory_cost cfg_ref 1 1 (1 / 5) g_ref 0
             = Inr ((145600 / 73, 1800, 0, fulfilled_demand s / total_demand s, 0,
                     total_demand s), drawn s))"
proof -
  have h1: "(1::int) \<noteq> 0" by simp
  have h2: "scales_ok cfg_ref (1 / 5)" by (rule scales_ok_ref)
  have d: "demand_on_day cfg_ref 1 1 (1 / 5) g_ref 0 2 = 100"
    by (simp add: demand_on_day_def ref_two_days daily_demand_ref)
  from fill_rate_division [OF h1 h1 h2, of g_ref 0]
  obtain s where s: "simulate_loop cfg_ref 1 1 (1 / 5) g_ref 0 = Inr s"
    and pos: "(\<exists>k<n_periods. 0 < demand_on_day cfg_ref 1 1 (1 / 5) g_ref 0 k) \<longrightarrow>
           0 < total_demand s
           \<and> (\<exists>store_val hub_val bakery_val stockout_risk.
                simulate_inventory_cost cfg_ref 1 1 (1 / 5) g_ref 0
                  = Inr ((store_val, hub_val, bakery_val,
                          fulfilled_demand s / total_demand s, stockout_risk,
                          total_demand s), drawn s))"
    by blast
  have "\<exists>k<n_periods. 0 < demand_on_day cfg_ref 1 1 (1 / 5) g_ref 0 k"
    using d by (intro exI [of _ 2]) (simp add: n_periods_def)
  with pos obtain store_val hub_val bakery_val stockout_risk where
    r: "simulate_inventory_cost cfg_ref 1 1 (1 / 5) g_ref 0
                  = Inr ((store_val, hub_val, bakery_val,
                          fulfilled_demand s / total_demand s, stockout_risk,
                          total_demand s), drawn s)"
    by blast
  have "total_demand s = 36300 \<and> store_val = 145600 / 73 \<and> hub_val = 1800
      \<and> bakery_val = 0 \<and> stockout_risk = 0"
    using r ref_result by simp
  with h1 h2 d s r show ?thesis by auto
qed

subsection \<open>C9: the search for the setting closest to 95 percent\<close>

text \<open>
  Claim C9. The search runs the engine for the store frequencies 1 to 7 in this order and
  returns the candidate whose gap \<open>\<bar>fill rate - 0.95\<bar>\<close> is smallest; among candidates of
  equal gap it returns the one scanned first, since a later candidate replaces the
  running best only when its gap is strictly smaller. Stated for any list of frequencies
  that is not empty, of which the script's is \<open>[1, 2, 3, 4, 5, 6, 7]\<close>.
\<close>

theorem best_setting_is_first_closest:
  assumes "sweep cfg hub_days g days p = Inr (cands, p')" and "days \<noteq> []"
  shows "map fst cands = days
     \<and> find_best_setting cfg hub_days g p
         = best_setting_loop cfg hub_days g [1, 2, 3, 4, 5, 6, 7] (Float_inf, None, p)
     \<and> (\<exists>i<length cands.
           best_setting_loop cfg hub_days g days (Float_inf, None, p)
             = Inr (Float (gap_of (cands ! i)), Some (setting_of (cands ! i)), p')
           \<and> freq (setting_of (cands ! i)) = days ! i
           \<and> (\<forall>j<length cands. gap_of (cands ! i) \<le> gap_of (cands ! j))
           \<and> (\<forall>j<i. gap_of (cands ! i) < gap_of (cands ! j)))"
proof -
  have a: "map fst cands = days" using assms(1) by (rule sweep_days)
  have b: "find_best_setting cfg hub_days g p
         = best_setting_loop cfg hub_days g [1, 2, 3, 4, 5, 6, 7] (Float_inf, None, p)"
    by (simp add: find_best_setting_def upt_rec)
  have ne: "cands \<noteq> []" using a assms(2) by auto
  from closest_first_min [OF ne] obtain i where i: "i < length cands"
    "closest cands (Float_inf, None) = (Float (gap_of (cands ! i)), Some (setting_of (cands ! i)))"
    "\<forall>j<length cands. gap_of (cands ! i) \<le> gap_of (cands ! j)"
    "\<forall>j<i. gap_of (cands ! i) < gap_of (cands ! j)"
    by blast
  have l: "best_setting_loop cfg hub_days g days (Float_inf, None, p)
             = Inr (Float (gap_of (cands ! i)), Some (setting_of (cands ! i)), p')"
    using best_setting_loop_closest [OF assms(1), of Float_inf None] i(2) by simp
  have "fst (cands ! i) = days ! i"
    using a i(1) by (metis nth_map)
  then have f: "freq (setting_of (cands ! i)) = days ! i"
    by (cases "cands ! i") auto
  have c: "\<exists>i<length cands.
           best_setting_loop cfg hub_days g days (Float_inf, None, p)
             = Inr (Float (gap_of (cands ! i)), Some (setting_of (cands ! i)), p')
           \<and> freq (setting_of (cands ! i)) = days ! i
           \<and> (\<forall>j<length cands. gap_of (cands ! i) \<le> gap_of (cands ! j))
           \<and> (\<forall>j<i. gap_of (cands ! i) < gap_of (cands ! j))"
    using i(1) l f i(3) i(4) by blast
  show ?thesis
    by (rule conjI [OF a conjI [OF b c]])
qed

text \<open>The script's scan at the slider defaults, on a generator whose draws are all 0.\<close>

theorem best_setting_is_first_closest_witness:
  "\<exists>cands p'. sweep cfg_default 7 (\<lambda>_. 0) [1, 2, 3, 4, 5, 6, 7] 0 = Inr (cands, p')
     \<and> [1, 2, 3, 4, 5, 6, 7] \<noteq> ([] :: int list)
     \<and> map fst cands = [1, 2, 3, 4, 5, 6, 7]
     \<and> (\<exists>i<7. find_best_setting cfg_default 7 (\<lambda>_. 0) 0
             = Inr (Float (gap_of (cands ! i)), Some (setting_of (cands ! i)), p')
           \<and> freq (setting_of (cands ! i)) = int i + 1
           \<and> (\<forall>j<7. gap_of (cands ! i) \<le> gap_of (cands ! j))
           \<and> (\<forall>j<i. gap_of (cands ! i) < gap_of (cands ! j)))"
proof -
  let ?days = "[1, 2, 3, 4, 5, 6, 7] :: int list"
  have ok: "scales_ok cfg_default (1 / 5)"
    by (simp add: scales_ok_def cfg_default_def)
  have dpos: "\<And>i. 0 < daily_demand (\<lambda>_. 0) i"
    by (simp add: daily_demand_def store_demand_mean_def store_demand_std_def)
  have "\<exists>cands p'. sweep cfg_default 7 (\<lambda>_. 0) ?days 0 = Inr (cands, p')"
    by (rule sweep_succeeds [OF _ ok dpos]) simp_all
  then obtain cands p' where sw: "sweep cfg_default 7 (\<lambda>_. 0) ?days 0 = Inr (cands, p')"
    by blast
  have ne: "?days \<noteq> []" by simp
  note t = best_setting_is_first_closest [OF sw ne]
  have m: "map fst cands = ?days" using t by blast
  have "length (map fst cands) = length ?days" using m by simp
  then have len: "length cands = 7" by simp
  have f: "find_best_setting cfg_default 7 (\<lambda>_. 0) 0
      = best_setting_loop cfg_default 7 (\<lambda>_. 0) ?days (Float_inf, None, 0)"
    using t by blast
  have "?days = map (\<lambda>i. int i + 1) [0..<7]" by (simp add: upt_rec)
  then have nth: "?days ! i = int i + 1" if "i < 7" for i
    using that by (simp del: upt_Suc)
  from t obtain i where i: "i < length cands"
    "best_setting_loop cfg_default 7 (\<lambda>_. 0) ?days (Float_inf, None, 0)
       = Inr (Float (gap_of (cands ! i)), Some (setting_of (cands ! i)), p')"
    "freq (setting_of (cands ! i)) = ?days ! i"
    "\<forall>j<length cands. gap_of (cands ! i) \<le> gap_of (cands ! j)"
    "\<forall>j<i. gap_of (cands ! i) < gap_of (cands ! j)"
    by blast
  have i7: "i < 7" using i(1) len by simp
  have w: "\<exists>i<7. find_best_setting cfg_default 7 (\<lambda>_. 0) 0
             = Inr (Float (gap_of (cands ! i)), Some (setting_of (cands ! i)), p')
           \<and> freq (setting_of (cands ! i)) = int i + 1
           \<and> (\<forall>j<7. gap_of (cands ! i) \<le> gap_of (cands ! j))
           \<and> (\<forall>j<i. gap_of (cands ! i) < gap_of (cands ! j))"
    using i7 i(2) i(3) i(4) i(5) f nth [OF i7] len
    by (intro exI [of _ i]) simp
  show ?thesis
    by (rule exI [of _ cands], rule exI [of _ p'])
      (rule conjI [OF sw conjI [OF ne conjI [OF m w]]])
qed

subsection \<open>C10: store and hub inventories are never negative\<close>

text \<open>
  Claim C10. The store and hub inventories of the state, not only their traces, are at
  least 0 throughout every run: they are at the start, every phase of the day keeps them
  so (fulfilment takes at most what the store holds, the transfer to the store happens
  only when the hub holds the quantity), and so does every day and every run of days.
  Of the three inventories only the bakery's can become negative, and it does.
\<close>

theorem store_and_hub_never_negative:
  "stock_ok (init_sim p)
   \<and> (stock_ok s \<longrightarrow>
        (\<forall>s'. fulfil_demand g s = Inr s' \<longrightarrow> stock_ok s')
        \<and> (\<forall>s'. replenish_store cfg sd lv g day s = Inr s' \<longrightarrow> stock_ok s')
        \<and> (\<forall>s'. replenish_hub cfg hb lv g day s = Inr s' \<longrightarrow> stock_ok s')
        \<and> (\<forall>s'. produce_bakery cfg hb lv g day s = Inr s' \<longrightarrow> stock_ok s')
        \<and> stock_ok (record_trace s)
        \<and> (\<forall>s'. day_step cfg sd hb lv g day s = Inr s' \<longrightarrow> stock_ok s')
        \<and> (\<forall>s'. run_days cfg sd hb lv g days s = Inr s' \<longrightarrow> stock_ok s'))
   \<and> (\<forall>sk. state_at cfg sd hb lv g p k = Inr sk \<longrightarrow>
         0 \<le> store_inventory sk \<and> 0 \<le> hub_inventory sk)
   \<and> (\<exists>sk. state_at cfg_tight 1 1 0 (\<lambda>_. 0) 0 1 = Inr sk \<and> bakery_inventory sk < 0)"
proof -
  have a: "stock_ok (init_sim p)"
    by (simp add: stock_ok_def init_sim_def)
  have b: "stock_ok s \<longrightarrow>
        (\<forall>s'. fulfil_demand g s = Inr s' \<longrightarrow> stock_ok s')
        \<and> (\<forall>s'. replenish_store cfg sd lv g day s = Inr s' \<longrightarrow> stock_ok s')
        \<and> (\<forall>s'. replenish_hub cfg hb lv g day s = Inr s' \<longrightarrow> stock_ok s')
        \<and> (\<forall>s'. produce_bakery cfg hb lv g day s = Inr s' \<longrightarrow> stock_ok s')
        \<and> stock_ok (record_trace s)
        \<and> (\<forall>s'. day_step cfg sd hb lv g day s = Inr s' \<longrightarrow> stock_ok s')
        \<and> (\<forall>s'. run_days cfg sd hb lv g days s = Inr s' \<longrightarrow> stock_ok s')"
    using fulfil_demand_stock_ok [of g s] replenish_store_stock_ok [of cfg sd lv g day s]
      replenish_hub_stock_ok [of cfg hb lv g day s] produce_bakery_stock_ok [of cfg hb lv g day s]
      record_trace_stock_ok [of s] day_step_stock_ok [of cfg sd hb lv g day s]
      run_days_stock_ok [of cfg sd hb lv g days s]
    by blast
  have c: "\<forall>sk. state_at cfg sd hb lv g p k = Inr sk \<longrightarrow>
         0 \<le> store_inventory sk \<and> 0 \<le> hub_inventory sk"
    using state_at_stock_ok [of cfg sd hb lv g p k] by (simp add: stock_ok_def)
  have d: "\<exists>sk. state_at cfg_tight 1 1 0 (\<lambda>_. 0) 0 1 = Inr sk \<and> bakery_inventory sk < 0"
    unfolding tight_two_days(1) by simp
  show ?thesis
    by (rule conjI [OF a conjI [OF b conjI [OF c d]]])
qed

text \<open>After two days of the tight setting store and hub hold 100 and 300 while the
  bakery is at -200; an order against an empty hub leaves both at 0.\<close>

theorem store_and_hub_never_negative_witness:
  "stock_ok (sim_with 0 0 (- 100))
   \<and> (\<exists>sk. state_at cfg_tight 1 1 0 (\<lambda>_. 0) 0 2 = Inr sk
         \<and> 0 \<le> store_inventory sk \<and> 0 \<le> hub_inventory sk
         \<and> store_inventory sk = 100 \<and> hub_inventory sk = 300 \<and> bakery_inventory sk = - 200)
   \<and> (\<exists>s'. replenish_store cfg_tight 1 0 (\<lambda>_. 0) 0 (sim_with 0 0 (- 100)) = Inr s'
         \<and> stock_ok s' \<and> store_inventory s' = 0 \<and> hub_inventory s' = 0)"
proof -
  have a: "stock_ok (sim_with 0 0 (- 100))"
    by (simp add: stock_ok_def sim_with_def init_sim_def)
  have b: "\<exists>sk. state_at cfg_tight 1 1 0 (\<lambda>_. 0) 0 2 = Inr sk
         \<and> 0 \<le> store_inventory sk \<and> 0 \<le> hub_inventory sk
         \<and> store_inventory sk = 100 \<and> hub_inventory sk = 300 \<and> bakery_inventory sk = - 200"
    using store_and_hub_never_negative [of 0 "sim_with 0 0 (- 100)" "\<lambda>_. 0" cfg_tight 1 0 0 1 "[]" 2]
    by (simp add: tight_two_days(2))
  have r: "replenish_store cfg_tight 1 0 (\<lambda>_. 0) 0 (sim_with 0 0 (- 100))
      = Inr ((sim_with 0 0 (- 100))\<lparr>drawn := 1\<rparr>)"
    by (simp add: replenish_store_def eval_defs Let_def)
  have "stock_ok ((sim_with 0 0 (- 100))\<lparr>drawn := 1\<rparr>)"
    using store_and_hub_never_negative [of 0 "sim_with 0 0 (- 100)" "\<lambda>_. 0" cfg_tight 1 0 0 1 "[]" 2]
      a r by blast
  then have c: "\<exists>s'. replenish_store cfg_tight 1 0 (\<lambda>_. 0) 0 (sim_with 0 0 (- 100)) = Inr s'
         \<and> stock_ok s' \<and> store_inventory s' = 0 \<and> hub_inventory s' = 0"
    using r by (simp add: sim_with_def init_sim_def)
  from a b c show ?thesis by blast
qed

end
